theory Spec2Isabelle
  imports Main
begin

section \<open>JavaScript values and the lodash predicates\<close>

text \<open>
  A value of TypeScript type \<open>T | null | undefined\<close>: the two absent values are kept
  apart, as the code tells them apart with \<open>isUndefined\<close> and \<open>isNil\<close>. The type \<open>T\<close>
  is not constrained, so a value can be a function, and the runtime treats a function it
  is given unlike any other value. \<open>Fn f\<close> is the function with the identity \<open>f\<close>;
  \<open>Val\<close> holds a value that is not a function. What a function returns when it is
  called is looked up in a table \<open>nat \<Rightarrow> 'a js \<Rightarrow> 'a js\<close>, from the function's identity
  and its argument (undefined when it is called without one); functions are taken to
  return normally and to return the same for the same argument.
\<close>

datatype 'a js = Undefined | Null | Val 'a | Fn nat

fun isUndefined :: "'a js \<Rightarrow> bool" where
  "isUndefined Undefined = True"
| "isUndefined _ = False"

fun isNil :: "'a js \<Rightarrow> bool" where
  "isNil Undefined = True"
| "isNil Null = True"
| "isNil (Val _) = False"
| "isNil (Fn _) = False"

text \<open>
  A key or parameter is \<open>string | number\<close>. Numbers are modelled as integers; their
  rendering in a template literal is the decimal one, which is what JavaScript prints for
  integer-valued numbers of magnitude below \<open>10^21\<close>.
\<close>

datatype key = KStr string | KNum int

fun digitsOf :: "nat \<Rightarrow> string" where
  "digitsOf n =
     (if n < 10 then [char_of (48 + n)]
      else digitsOf (n div 10) @ [char_of (48 + n mod 10)])"

declare digitsOf.simps [simp del]

fun keyText :: "key \<Rightarrow> string" where
  "keyText (KStr s) = s"
| "keyText (KNum i) = (if i < 0 then CHR ''-'' # digitsOf (nat (- i)) else digitsOf (nat i))"

text \<open>
  What \<open>`${x}`\<close> prints for a possibly absent key. A key is never a function, by its
  type; the last equation only completes the definition.
\<close>

fun toText :: "key js \<Rightarrow> string" where
  "toText Undefined = ''undefined''"
| "toText Null = ''null''"
| "toText (Val k) = keyText k"
| "toText (Fn f) = ''function''"

section \<open>The collaborators: store, component runtime, actions\<close>

text \<open>
  The hooks talk to three things outside this repository: the tates store
  (\<open>subscribe(callback, path)\<close> returning an unsubscribe function), the React runtime
  (\<open>useState\<close>, \<open>useEffect\<close>) and the caller's action. They are modelled as one state
  record that the hook functions pass along.

  Every call that leaves the hook is appended to \<open>trace\<close>, in the order in which it is
  made: \<open>ActionCall\<close> is a call of the factory's \<open>actionFn\<close> with its arguments,
  \<open>InvokeCall\<close> a call of the invoker of a positional factory with its parameter, and
  \<open>Subscribe\<close> and \<open>Unsubscribe\<close> are the calls to the store, with the handle the
  subscription got.
\<close>

datatype 'b event =
    ActionCall "'b list"
  | InvokeCall "key js"
  | Subscribe nat string
  | Unsubscribe nat

text \<open>An effect's cleanup is lodash's \<open>noop\<close> or the unsubscribe function of one handle.\<close>

datatype cleanup = CNoop | CUnsub nat

text \<open>An element of a dependency array.\<close>

datatype 'b dep = DKey "key js" | DFlag bool | DArg 'b

record ('a, 'b, 'w) sys =
  initialValueCopy :: "'a js"
  mounted :: bool
  state :: "'a js"
  deps :: "'b dep list"
  cleanup :: cleanup
  subs :: "(nat \<times> string \<times> ('a js \<Rightarrow> 'a js)) list"
  nextHandle :: nat
  trace :: "'b event list"
  world :: 'w
  funs :: "nat \<Rightarrow> 'a js \<Rightarrow> 'a js"

text \<open>
  \<^item> \<open>initialValueCopy\<close> is the \<open>let\<close> variable of the factory's closure;
  \<^item> \<open>mounted\<close>, \<open>state\<close>, \<open>deps\<close> and \<open>cleanup\<close> are what the runtime keeps for one
    component instance: the \<open>useState\<close> cell, and the dependency array and cleanup of the
    last run of the \<open>useEffect\<close> effect;
  \<^item> \<open>subs\<close> and \<open>nextHandle\<close> are the store: the live subscriptions, each a handle, a
    path and the callback registered for it. A callback is written as the function from
    the delivered value to the value it passes to \<open>setState\<close>;
  \<^item> \<open>world\<close> is whatever the caller's action can change;
  \<^item> \<open>funs\<close> is the table of what the function values return. No step changes it.
\<close>

definition newInstance :: "(nat \<Rightarrow> 'a js \<Rightarrow> 'a js) \<Rightarrow> 'a js \<Rightarrow> 'w \<Rightarrow> ('a, 'b, 'w) sys" where
  "newInstance fs iv w =
     \<lparr> initialValueCopy = iv, mounted = False, state = Undefined, deps = [],
       cleanup = CNoop, subs = [], nextHandle = 0, trace = [], world = w, funs = fs \<rparr>"

subsection \<open>The store\<close>

text \<open>
  Modelled from the spec: the store's \<open>subscribe(callback, path) -> unsubscribe\<close> (section 6);
  the tates package is not part of this repository. Every subscription gets a handle of its
  own, calling the unsubscribe function removes it, and a change of the value at a path
  calls the callbacks subscribed to that path. Each callback of the hooks ends in a call
  of \<open>setState\<close>, so a delivery is the sequence of these calls.
\<close>

definition subscribe ::
  "('a js \<Rightarrow> 'a js) \<Rightarrow> string \<Rightarrow> ('a, 'b, 'w) sys \<Rightarrow> cleanup \<times> ('a, 'b, 'w) sys" where
  "subscribe callback path s =
     (CUnsub (nextHandle s),
      s\<lparr> subs := subs s @ [(nextHandle s, path, callback)],
         nextHandle := Suc (nextHandle s),
         trace := trace s @ [Subscribe (nextHandle s) path] \<rparr>)"

definition unsubscribe :: "nat \<Rightarrow> ('a, 'b, 'w) sys \<Rightarrow> ('a, 'b, 'w) sys" where
  "unsubscribe h s =
     s\<lparr> subs := filter (\<lambda>e. fst e \<noteq> h) (subs s),
        trace := trace s @ [Unsubscribe h] \<rparr>"

text \<open>
  \<open>setState(x)\<close> as React has it: a function \<open>x\<close> is an updater, it is called with the
  current state and what it returns is the new state; any other \<open>x\<close> is the new state.
  \<open>stateAfter fs x st\<close> is the state after \<open>setState(x)\<close> in the state \<open>st\<close>.
\<close>

fun stateAfter :: "(nat \<Rightarrow> 'a js \<Rightarrow> 'a js) \<Rightarrow> 'a js \<Rightarrow> 'a js \<Rightarrow> 'a js" where
  "stateAfter fs (Fn f) st = fs f st"
| "stateAfter fs x st = x"

fun deliver ::
  "(nat \<Rightarrow> 'a js \<Rightarrow> 'a js) \<Rightarrow> string \<Rightarrow> 'a js \<Rightarrow>
   (nat \<times> string \<times> ('a js \<Rightarrow> 'a js)) list \<Rightarrow> 'a js \<Rightarrow> 'a js" where
  "deliver fs path v [] st = st"
| "deliver fs path v ((h, p, callback) # rest) st =
     deliver fs path v rest (if p = path then stateAfter fs (callback v) st else st)"

definition notify :: "string \<Rightarrow> 'a js \<Rightarrow> ('a, 'b, 'w) sys \<Rightarrow> ('a, 'b, 'w) sys" where
  "notify path v s = s\<lparr> state := deliver (funs s) path v (subs s) (state s) \<rparr>"

subsection \<open>The component runtime\<close>

text \<open>
  Modelled from the spec: the runtime's local state and cleanup-bearing effect (section 1:
  "register a cleanup-bearing side effect that reruns when a declared dependency list
  changes, and a piece of local state that triggers re-render when replaced"); React is
  not part of this repository. \<open>useState\<close> uses its argument on the first render of an
  instance only; as React has it, an argument that is a function is a lazy initialiser:
  it is called without an argument and what it returns is the initial state.
  \<open>useEffect\<close> runs the effect on the first render, and on a later render
  whose dependency array differs from that of the render before, after the cleanup the
  previous run returned; the effect and the render that declared it are one step here.
  Unmounting runs the last cleanup.
\<close>

fun initialStateOf :: "(nat \<Rightarrow> 'a js \<Rightarrow> 'a js) \<Rightarrow> 'a js \<Rightarrow> 'a js" where
  "initialStateOf fs (Fn f) = fs f Undefined"
| "initialStateOf fs x = x"

definition useState :: "'a js \<Rightarrow> ('a, 'b, 'w) sys \<Rightarrow> 'a js \<times> ('a, 'b, 'w) sys" where
  "useState initialState s =
     (if mounted s then (state s, s)
      else (initialStateOf (funs s) initialState,
            s\<lparr> state := initialStateOf (funs s) initialState \<rparr>))"

fun runCleanup :: "cleanup \<Rightarrow> ('a, 'b, 'w) sys \<Rightarrow> ('a, 'b, 'w) sys" where
  "runCleanup CNoop s = s"
| "runCleanup (CUnsub h) s = unsubscribe h s"

definition commitEffect ::
  "(('a, 'b, 'w) sys \<Rightarrow> cleanup \<times> ('a, 'b, 'w) sys) \<Rightarrow> 'b dep list \<Rightarrow>
   ('a, 'b, 'w) sys \<Rightarrow> ('a, 'b, 'w) sys" where
  "commitEffect effect ds s =
     (case effect s of (c, s') \<Rightarrow> s'\<lparr> deps := ds, cleanup := c \<rparr>)"

text \<open>
  Modelled from the spec: the dependency list is "compared element-wise by identity"
  (section 4.3). An array is compared with the one of the render before element by
  element, over the length the two have in common, as React does; equality of the
  elements stands for the identity \<open>Object.is\<close> tests. For arrays of one length this is
  equality of the arrays.
\<close>

fun sameDeps :: "'b dep list \<Rightarrow> 'b dep list \<Rightarrow> bool" where
  "sameDeps (x # xs) (y # ys) = (x = y \<and> sameDeps xs ys)"
| "sameDeps _ _ = True"

definition useEffect ::
  "(('a, 'b, 'w) sys \<Rightarrow> cleanup \<times> ('a, 'b, 'w) sys) \<Rightarrow> 'b dep list \<Rightarrow>
   ('a, 'b, 'w) sys \<Rightarrow> ('a, 'b, 'w) sys" where
  "useEffect effect ds s =
     (if \<not> mounted s then commitEffect effect ds s
      else if \<not> sameDeps (deps s) ds
      then commitEffect effect ds (runCleanup (cleanup s) s)
      else s\<lparr> deps := ds \<rparr>)"

definition unmount :: "('a, 'b, 'w) sys \<Rightarrow> ('a, 'b, 'w) sys" where
  "unmount s = (runCleanup (cleanup s) s)\<lparr> mounted := False, deps := [], cleanup := CNoop \<rparr>"

text \<open>
  What can happen to a component instance: it is rendered (the hook is called with an
  argument), the store delivers a value for a path, or it is unmounted.
\<close>

datatype ('a, 'i) input = Render 'i | Notify string "'a js" | Unmount

definition render ::
  "('i \<Rightarrow> ('a, 'b, 'w) sys \<Rightarrow> 'a js \<times> ('a, 'b, 'w) sys) \<Rightarrow> 'i \<Rightarrow>
   ('a, 'b, 'w) sys \<Rightarrow> 'a js \<times> ('a, 'b, 'w) sys" where
  "render hook i s = (case hook i s of (r, s') \<Rightarrow> (r, s'\<lparr> mounted := True \<rparr>))"

fun step ::
  "('i \<Rightarrow> ('a, 'b, 'w) sys \<Rightarrow> 'a js \<times> ('a, 'b, 'w) sys) \<Rightarrow> ('a, 'i) input \<Rightarrow>
   ('a, 'b, 'w) sys \<Rightarrow> ('a, 'b, 'w) sys" where
  "step hook (Render i) s = snd (render hook i s)"
| "step hook (Notify p v) s = notify p v s"
| "step hook Unmount s = unmount s"

fun run ::
  "('i \<Rightarrow> ('a, 'b, 'w) sys \<Rightarrow> 'a js \<times> ('a, 'b, 'w) sys) \<Rightarrow> ('a, 'i) input list \<Rightarrow>
   ('a, 'b, 'w) sys \<Rightarrow> ('a, 'b, 'w) sys" where
  "run hook [] s = s"
| "run hook (e # es) s = run hook es (step hook e s)"

subsection \<open>Actions\<close>

text \<open>
  The configured action is absent, a value that is not a function, or a function. A
  function is modelled by what it does to the world, given its arguments; it returns
  normally, and what it returns (a promise, say) is dropped by the \<open>void\<close> at the call.
\<close>

datatype ('b, 'w) action = ActionAbsent | ActionNotCallable | ActionFn "'b list \<Rightarrow> 'w \<Rightarrow> 'w"

fun isFunction :: "('b, 'w) action \<Rightarrow> bool" where
  "isFunction (ActionFn f) = True"
| "isFunction _ = False"

definition noop :: "'b list \<Rightarrow> 'w \<Rightarrow> 'w" where
  "noop args w = w"

fun callee :: "('b, 'w) action \<Rightarrow> 'b list \<Rightarrow> 'w \<Rightarrow> 'w" where
  "callee (ActionFn f) = f"
| "callee _ = noop"

definition callAction ::
  "('b list \<Rightarrow> 'w \<Rightarrow> 'w) \<Rightarrow> 'b list \<Rightarrow> ('a, 'b, 'w) sys \<Rightarrow> ('a, 'b, 'w) sys" where
  "callAction f args s = s\<lparr> world := f args (world s), trace := trace s @ [ActionCall args] \<rparr>"

definition callInvoke ::
  "(key js \<Rightarrow> 'w \<Rightarrow> 'w) \<Rightarrow> key js \<Rightarrow> ('a, 'b, 'w) sys \<Rightarrow> ('a, 'b, 'w) sys" where
  "callInvoke f p s = s\<lparr> world := f p (world s), trace := trace s @ [InvokeCall p] \<rparr>"

section \<open>The hook factories with an options object\<close>

text \<open>
  \<open>createStateHook\<close> and \<open>createKeyedStateHook\<close> as the current sources have them
  (\<open>src/unnamed/part_002\<close>, lines 248 to 369; the README documents this interface). A
  factory call creates a closure, whose variable \<open>initialValueCopy\<close> starts as the
  configured initial value (\<open>newFactory\<close>), and returns the hook, which is modelled as a
  function from the hook's argument and the state to the returned value and the new state.
  The configuration's \<open>tate\<close> is the store part of the state.
\<close>

record ('a, 'b, 'w) stateHookOptions =
  property :: string
  action :: "('b, 'w) action"
  initialValue :: "'a js"

record 'b hookOptions =
  invokeAction :: "bool option"
  actionArgs :: "'b list option"

record 'b keyedHookOptions = "'b hookOptions" +
  key :: "key js"

text \<open>
  The hook's parameter is destructured with defaults: \<open>{invokeAction = true, actionArgs} = {}\<close>,
  and \<open>actionArr = isArray(actionArgs) ? actionArgs : []\<close>. \<open>None\<close> stands for a field
  (or the whole argument) that is undefined, and for \<open>actionArgs\<close> also for a value that
  is not an array.
\<close>

definition invokeActionOf :: "('b, 'z) hookOptions_scheme option \<Rightarrow> bool" where
  "invokeActionOf options =
     (case options of None \<Rightarrow> True
      | Some opts \<Rightarrow> (case invokeAction opts of None \<Rightarrow> True | Some b \<Rightarrow> b))"

definition actionArrOf :: "('b, 'z) hookOptions_scheme option \<Rightarrow> 'b list" where
  "actionArrOf options =
     (case options of None \<Rightarrow> []
      | Some opts \<Rightarrow> (case actionArgs opts of None \<Rightarrow> [] | Some xs \<Rightarrow> xs))"

definition keyOf :: "'b keyedHookOptions option \<Rightarrow> key js" where
  "keyOf options = (case options of None \<Rightarrow> Undefined | Some opts \<Rightarrow> key opts)"

definition actionFn :: "('a, 'b, 'w) stateHookOptions \<Rightarrow> 'b list \<Rightarrow> 'w \<Rightarrow> 'w" where
  "actionFn cfg = (if isFunction (action cfg) then callee (action cfg) else noop)"

text \<open>\<open>if (isUndefined(initialValueCopy)) { initialValueCopy = null; }\<close>\<close>

definition normalizeCopy :: "('a, 'b, 'w) sys \<Rightarrow> ('a, 'b, 'w) sys" where
  "normalizeCopy s =
     (if isUndefined (initialValueCopy s) then s\<lparr> initialValueCopy := Null \<rparr> else s)"

text \<open>
  \<open>if (isNil(state) && !isNil(initialValueCopy)) { return initialValueCopy; } return state;\<close>
\<close>

definition readValue :: "'a js \<Rightarrow> 'a js \<Rightarrow> 'a js" where
  "readValue st copy = (if isNil st \<and> \<not> isNil copy then copy else st)"

subsection \<open>createStateHook\<close>

text \<open>
  The callback is the arrow function the effect passes to \<open>subscribe\<close>; the effect is the
  function passed to \<open>useEffect\<close>, with the \<open>invokeAction\<close> and \<open>actionArr\<close> of the
  render that declared it.
\<close>

definition stateHookCallback :: "'a js \<Rightarrow> 'a js" where
  "stateHookCallback v = (if isUndefined v then Null else v)"

definition stateHookEffect ::
  "('a, 'b, 'w) stateHookOptions \<Rightarrow> bool \<Rightarrow> 'b list \<Rightarrow> ('a, 'b, 'w) sys \<Rightarrow>
   cleanup \<times> ('a, 'b, 'w) sys" where
  "stateHookEffect cfg invoke actionArr s =
     subscribe stateHookCallback (property cfg)
       (if invoke then callAction (actionFn cfg) actionArr s else s)"

definition createStateHook ::
  "('a, 'b, 'w) stateHookOptions \<Rightarrow> 'b hookOptions option \<Rightarrow> ('a, 'b, 'w) sys \<Rightarrow>
   'a js \<times> ('a, 'b, 'w) sys" where
  "createStateHook cfg options s =
     (let invoke = invokeActionOf options;
          actionArr = actionArrOf options;
          s1 = normalizeCopy s;
          (st, s2) = useState (initialValueCopy s1) s1;
          s3 = useEffect (stateHookEffect cfg invoke actionArr)
                 (DFlag invoke # map DArg actionArr) s2
      in (readValue st (initialValueCopy s2), s3))"

subsection \<open>createKeyedStateHook\<close>

definition keyedStateHookCallback :: "'a js \<Rightarrow> 'a js" where
  "keyedStateHookCallback v = (if isUndefined v then Null else v)"

definition keyedStateHookEffect ::
  "('a, 'b, 'w) stateHookOptions \<Rightarrow> key js \<Rightarrow> bool \<Rightarrow> 'b list \<Rightarrow> ('a, 'b, 'w) sys \<Rightarrow>
   cleanup \<times> ('a, 'b, 'w) sys" where
  "keyedStateHookEffect cfg k invoke actionArr s =
     (let s1 = normalizeCopy s in
      if isNil k then (CNoop, s1)
      else subscribe keyedStateHookCallback (property cfg @ ''.'' @ toText k)
             (if invoke then callAction (actionFn cfg) actionArr s1 else s1))"

definition createKeyedStateHook ::
  "('a, 'b, 'w) stateHookOptions \<Rightarrow> 'b keyedHookOptions option \<Rightarrow> ('a, 'b, 'w) sys \<Rightarrow>
   'a js \<times> ('a, 'b, 'w) sys" where
  "createKeyedStateHook cfg options s =
     (let k = keyOf options;
          invoke = invokeActionOf options;
          (st, s1) = useState Null s;
          actionArr = actionArrOf options;
          s2 = useEffect (keyedStateHookEffect cfg k invoke actionArr)
                 (DKey k # DFlag invoke # map DArg actionArr) s1
      in (readValue st (initialValueCopy s1), s2))"

text \<open>
  The closure a factory call creates, before any component uses the hook, in a world
  \<open>w\<close> with the function table \<open>fs\<close>.
\<close>

definition newFactory ::
  "('a, 'b, 'w) stateHookOptions \<Rightarrow> (nat \<Rightarrow> 'a js \<Rightarrow> 'a js) \<Rightarrow> 'w \<Rightarrow> ('a, 'b, 'w) sys" where
  "newFactory cfg fs w = newInstance fs (initialValue cfg) w"

section \<open>The hook factories with positional arguments\<close>

text \<open>
  The three factories of \<open>src/src/hooks.ts\<close>. Two of them bear the names of the factories
  above, so they get a suffix here: \<open>createStateHook_prop\<close> (lines 36 to 72, called with
  a property), \<open>createStateHook_curried\<close> (the same function called without one) and
  \<open>createKeyedStateHook_invoke\<close> (lines 85 to 112). These closures start from
  \<open>newInstance\<close>, with the initial value if the factory takes one.
\<close>

subsection \<open>createStateHook(actor, prop, initialValue)\<close>

definition propHookCallback :: "'a js \<Rightarrow> 'a js" where
  "propHookCallback v = (if isUndefined v then Null else v)"

definition propHookEffect :: "string \<Rightarrow> ('a, 'b, 'w) sys \<Rightarrow> cleanup \<times> ('a, 'b, 'w) sys" where
  "propHookEffect prop s = subscribe propHookCallback prop s"

definition createStateHook_prop ::
  "string \<Rightarrow> unit \<Rightarrow> ('a, 'b, 'w) sys \<Rightarrow> 'a js \<times> ('a, 'b, 'w) sys" where
  "createStateHook_prop prop u s =
     (let s1 = normalizeCopy s;
          (st, s2) = useState (initialValueCopy s1) s1;
          s3 = useEffect (propHookEffect prop) [] s2
      in (readValue st (initialValueCopy s2), s3))"

text \<open>
  Without \<open>prop\<close> the factory returns \<open>(property) => createStateHook(actor, property)()\<close>:
  every call builds a new closure, whose \<open>initialValueCopy\<close> starts undefined, and calls
  its hook at once.
\<close>

definition createStateHook_curried ::
  "string \<Rightarrow> ('a, 'b, 'w) sys \<Rightarrow> 'a js \<times> ('a, 'b, 'w) sys" where
  "createStateHook_curried prop s = createStateHook_prop prop () (s\<lparr> initialValueCopy := Undefined \<rparr>)"

subsection \<open>createKeyedStateHook(actor, invoke, parentProp)\<close>

definition invokeKeyedCallback :: "'a js \<Rightarrow> 'a js" where
  "invokeKeyedCallback v = (if isUndefined v then Null else v)"

definition invokeKeyedEffect ::
  "(key js \<Rightarrow> 'w \<Rightarrow> 'w) \<Rightarrow> string \<Rightarrow> key js \<Rightarrow> ('a, 'b, 'w) sys \<Rightarrow>
   cleanup \<times> ('a, 'b, 'w) sys" where
  "invokeKeyedEffect invoke parentProp id' s =
     (if isNil id' then (CNoop, s)
      else subscribe invokeKeyedCallback (parentProp @ ''.'' @ toText id')
             (callInvoke invoke id' s))"

definition createKeyedStateHook_invoke ::
  "(key js \<Rightarrow> 'w \<Rightarrow> 'w) \<Rightarrow> string \<Rightarrow> key js \<Rightarrow> ('a, 'b, 'w) sys \<Rightarrow>
   'a js \<times> ('a, 'b, 'w) sys" where
  "createKeyedStateHook_invoke invoke parentProp id' s =
     (let (st, s1) = useState Null s;
          s2 = useEffect (invokeKeyedEffect invoke parentProp id') [DKey id'] s1
      in (st, s2))"

subsection \<open>createWrappedStateHook(actor, invoke, prop)\<close>

definition wrappedHookCallback :: "'a js \<Rightarrow> 'a js" where
  "wrappedHookCallback v = (if isUndefined v then Null else v)"

definition wrappedHookEffect ::
  "(key js \<Rightarrow> 'w \<Rightarrow> 'w) \<Rightarrow> string \<Rightarrow> key js \<Rightarrow> ('a, 'b, 'w) sys \<Rightarrow>
   cleanup \<times> ('a, 'b, 'w) sys" where
  "wrappedHookEffect invoke prop param s =
     subscribe wrappedHookCallback prop (callInvoke invoke param s)"

definition createWrappedStateHook ::
  "(key js \<Rightarrow> 'w \<Rightarrow> 'w) \<Rightarrow> string \<Rightarrow> key js \<Rightarrow> ('a, 'b, 'w) sys \<Rightarrow>
   'a js \<times> ('a, 'b, 'w) sys" where
  "createWrappedStateHook invoke prop param s =
     (let (st, s1) = useState Null s;
          s2 = useEffect (wrappedHookEffect invoke prop param) [DKey param] s1
      in (st, s2))"

section \<open>Reading a trace and the store\<close>

text \<open>
  The handles subscribed and the handles released, each in the order of the calls, and the
  action calls with their arguments.
\<close>

fun subscribed :: "'b event list \<Rightarrow> nat list" where
  "subscribed [] = []"
| "subscribed (Subscribe h p # es) = h # subscribed es"
| "subscribed (_ # es) = subscribed es"

fun released :: "'b event list \<Rightarrow> nat list" where
  "released [] = []"
| "released (Unsubscribe h # es) = h # released es"
| "released (_ # es) = released es"

fun actionCalls :: "'b event list \<Rightarrow> 'b list list" where
  "actionCalls [] = []"
| "actionCalls (ActionCall args # es) = args # actionCalls es"
| "actionCalls (_ # es) = actionCalls es"

text \<open>
  \<open>scan c es\<close> replays a trace against the single cleanup slot of an effect: a
  subscribe is accepted only while the slot holds no handle and puts its handle there, an
  unsubscribe is accepted only for the handle in the slot and empties it. The result is
  the slot after the trace, or \<open>None\<close> if some call was not accepted.
\<close>

fun scan :: "cleanup \<Rightarrow> 'b event list \<Rightarrow> cleanup option" where
  "scan c [] = Some c"
| "scan c (Subscribe h p # es) = (if c = CNoop then scan (CUnsub h) es else None)"
| "scan c (Unsubscribe h # es) = (if c = CUnsub h then scan CNoop es else None)"
| "scan c (_ # es) = scan c es"

fun handles :: "cleanup \<Rightarrow> nat list" where
  "handles CNoop = []"
| "handles (CUnsub h) = [h]"

text \<open>
  The paths the store holds a subscription for, and the subscriptions as pairs of handle
  and path.
\<close>

definition subscribedPaths :: "('a, 'b, 'w) sys \<Rightarrow> string list" where
  "subscribedPaths s = map (\<lambda>e. fst (snd e)) (subs s)"

definition liveSubs :: "('a, 'b, 'w) sys \<Rightarrow> (nat \<times> string) list" where
  "liveSubs s = map (\<lambda>e. (fst e, fst (snd e))) (subs s)"

text \<open>
  A state is disciplined if its trace replays against the one slot and ends in the
  current cleanup, no handle was handed out twice, the handles released are the handles
  subscribed, in the same order, without the one of the current cleanup, and the store
  holds exactly that one.
\<close>

definition disciplined :: "('a, 'b, 'w) sys \<Rightarrow> bool" where
  "disciplined s \<longleftrightarrow>
     scan CNoop (trace s) = Some (cleanup s) \<and>
     distinct (subscribed (trace s)) \<and>
     subscribed (trace s) = released (trace s) @ handles (cleanup s) \<and>
     map fst (subs s) = handles (cleanup s)"

section \<open>Invariants of the states a component instance can reach\<close>

text \<open>
  The store holds exactly the subscription whose unsubscribe function is the effect's
  current cleanup, an unmounted instance holds none, the trace so far is a disciplined
  one, and every handle in it is older than the next one the store will hand out.
\<close>

definition inv :: "('a, 'b, 'w) sys \<Rightarrow> bool" where
  "inv s \<longleftrightarrow>
     map fst (subs s) = handles (cleanup s) \<and>
     (\<not> mounted s \<longrightarrow> cleanup s = CNoop) \<and>
     scan CNoop (trace s) = Some (cleanup s) \<and>
     (\<forall>h \<in> set (subscribed (trace s)). h < nextHandle s) \<and>
     distinct (subscribed (trace s)) \<and>
     subscribed (trace s) = released (trace s) @ handles (cleanup s)"

text \<open>Every registered callback is the normalising one.\<close>

definition vinv :: "('a, 'b, 'w) sys \<Rightarrow> bool" where
  "vinv s \<longleftrightarrow> (\<forall>e \<in> set (subs s). snd (snd e) = stateHookCallback)"

text \<open>
  The fallback slot holds the normalised initial value, or still the initial value itself
  while the instance has not been mounted.
\<close>

definition slotOk :: "'a js \<Rightarrow> ('a, 'b, 'w) sys \<Rightarrow> bool" where
  "slotOk iv s \<longleftrightarrow>
     initialValueCopy s = (if isUndefined iv then Null else iv) \<or>
     (initialValueCopy s = iv \<and> \<not> mounted s)"

text \<open>
  A mounted hook without a key is subscribed to its property; a mounted keyed hook is
  subscribed to the path of the key of its last render, or to nothing if that key is nil.
\<close>

definition atProperty :: "string \<Rightarrow> ('a, 'b, 'w) sys \<Rightarrow> bool" where
  "atProperty p s \<longleftrightarrow> (mounted s \<longrightarrow> subscribedPaths s = [p])"

definition atKey :: "string \<Rightarrow> ('a, 'b, 'w) sys \<Rightarrow> bool" where
  "atKey p s \<longleftrightarrow>
     (mounted s \<longrightarrow>
       (\<exists>k r. deps s = DKey k # r \<and>
          subscribedPaths s = (if isNil k then [] else [p @ ''.'' @ toText k])))"

definition okState :: "('a, 'b, 'w) stateHookOptions \<Rightarrow> ('a, 'b, 'w) sys \<Rightarrow> bool" where
  "okState cfg s \<longleftrightarrow> inv s \<and> vinv s \<and> slotOk (initialValue cfg) s \<and> atProperty (property cfg) s"

definition okKeyed :: "('a, 'b, 'w) stateHookOptions \<Rightarrow> ('a, 'b, 'w) sys \<Rightarrow> bool" where
  "okKeyed cfg s \<longleftrightarrow> inv s \<and> vinv s \<and> slotOk (initialValue cfg) s \<and> atKey (property cfg) s"




section \<open>Example configurations\<close>

text \<open>
  Two tables of functions. In \<open>demoFuns\<close> function 0 returns undefined, function 1
  returns the list \<open>[7]\<close>, and every other function returns a list doubled and anything
  else as it is. In \<open>calmFuns\<close> every function doubles a list and returns null for
  anything else, so none returns undefined.
\<close>

definition demoFuns :: "nat \<Rightarrow> nat list js \<Rightarrow> nat list js" where
  "demoFuns f x =
     (if f = 0 then Undefined
      else if f = 1 then Val [7]
      else (case x of Val xs \<Rightarrow> Val (xs @ xs) | _ \<Rightarrow> x))"

definition calmFuns :: "nat \<Rightarrow> nat list js \<Rightarrow> nat list js" where
  "calmFuns f x = (case x of Val xs \<Rightarrow> Val (xs @ xs) | _ \<Rightarrow> Null)"

text \<open>
  Configurations to run the hooks on: a cart bound to \<open>cart\<close> with the empty list as its
  initial value, a product bound to \<open>product\<close> with no initial value, and a cart whose
  action is not a function. Values are lists of item ids, action arguments are strings,
  and the world counts the calls of the action.
\<close>

definition cartCfg :: "(nat list, string, nat) stateHookOptions" where
  "cartCfg = \<lparr> property = ''cart'', action = ActionFn (\<lambda>args n. Suc n), initialValue = Val [] \<rparr>"

definition productCfg :: "(nat list, string, nat) stateHookOptions" where
  "productCfg =
     \<lparr> property = ''product'', action = ActionFn (\<lambda>args n. Suc n), initialValue = Undefined \<rparr>"



text \<open>
  Arguments of a hook call: only a key; only action arguments; action arguments with
  \<open>invokeAction = false\<close>. And an invoker for a wrapped hook, which counts its calls.
\<close>

definition withKey :: "key js \<Rightarrow> string keyedHookOptions option" where
  "withKey k = Some \<lparr> invokeAction = None, actionArgs = None, key = k \<rparr>"

definition withArgs :: "string list \<Rightarrow> string hookOptions option" where
  "withArgs xs = Some \<lparr> invokeAction = None, actionArgs = Some xs \<rparr>"

definition noInvoke :: "string list \<Rightarrow> string hookOptions option" where
  "noInvoke xs = Some \<lparr> invokeAction = Some False, actionArgs = Some xs \<rparr>"

definition countCalls :: "key js \<Rightarrow> nat \<Rightarrow> nat" where
  "countCalls p n = Suc n"

section \<open>Basic facts\<close>

lemmas prim_defs = useState_def useEffect_def commitEffect_def subscribe_def unsubscribe_def
  callAction_def callInvoke_def normalizeCopy_def render_def unmount_def notify_def

lemmas hook_defs = createStateHook_def stateHookEffect_def createKeyedStateHook_def
  keyedStateHookEffect_def createStateHook_prop_def propHookEffect_def
  createStateHook_curried_def createKeyedStateHook_invoke_def invokeKeyedEffect_def
  createWrappedStateHook_def wrappedHookEffect_def

lemma isUndefined_iff: "isUndefined v \<longleftrightarrow> v = Undefined"
  by (cases v) auto


lemma callbacks_same:
  "keyedStateHookCallback = stateHookCallback"
  "propHookCallback = stateHookCallback"
  "invokeKeyedCallback = stateHookCallback"
  "wrappedHookCallback = stateHookCallback"
  by (auto simp: fun_eq_iff keyedStateHookCallback_def stateHookCallback_def propHookCallback_def
      invokeKeyedCallback_def wrappedHookCallback_def)

lemma run_snoc: "run hook (es @ [e]) s = step hook e (run hook es s)"
  by (induction es arbitrary: s) auto

lemma run_append: "run hook (es @ fs) s = run hook fs (run hook es s)"
  by (induction es arbitrary: s) auto

lemma run_preserves:
  assumes init: "P s"
    and rend: "\<And>i s. P s \<Longrightarrow> P (snd (render hook i s))"
    and noti: "\<And>p v s. P s \<Longrightarrow> P (notify p v s)"
    and unmo: "\<And>s. P s \<Longrightarrow> P (unmount s)"
  shows "P (run hook es s)"
  using init
proof (induction es arbitrary: s)
  case Nil
  then show ?case by simp
next
  case (Cons e es)
  have "P (step hook e s)"
    using Cons.prems by (cases e) (simp_all add: rend noti unmo)
  then show ?case by (simp add: Cons.IH)
qed

lemma subscribed_append: "subscribed (xs @ ys) = subscribed xs @ subscribed ys"
  by (induction xs rule: subscribed.induct) auto

lemma released_append: "released (xs @ ys) = released xs @ released ys"
  by (induction xs rule: released.induct) auto

lemma actionCalls_append: "actionCalls (xs @ ys) = actionCalls xs @ actionCalls ys"
  by (induction xs rule: actionCalls.induct) auto

lemma scan_append:
  "scan c (xs @ ys) = (case scan c xs of None \<Rightarrow> None | Some c' \<Rightarrow> scan c' ys)"
  by (induction c xs rule: scan.induct) auto

lemmas trace_append = scan_append subscribed_append released_append actionCalls_append

lemma inv_new: "inv (newInstance fs iv w)"
  by (simp add: inv_def newInstance_def)

lemma inv_notify: "inv s \<Longrightarrow> inv (notify p v s)"
  by (auto simp: inv_def notify_def)

lemma inv_unmount: "inv s \<Longrightarrow> inv (unmount s)"
  by (cases "cleanup s")
     (auto simp: inv_def unmount_def unsubscribe_def trace_append)

lemma inv_createStateHook: "inv s \<Longrightarrow> inv (snd (render (createStateHook cfg) options s))"
  by (cases "cleanup s")
     (auto simp: inv_def hook_defs Let_def prim_defs trace_append less_SucI
        split: prod.splits if_splits)

lemma inv_createKeyedStateHook: "inv s \<Longrightarrow> inv (snd (render (createKeyedStateHook cfg) options s))"
  by (cases "cleanup s")
     (auto simp: inv_def hook_defs Let_def prim_defs trace_append less_SucI
        split: prod.splits if_splits)

lemma inv_createStateHook_prop: "inv s \<Longrightarrow> inv (snd (render (createStateHook_prop prop) u s))"
  by (cases "cleanup s")
     (auto simp: inv_def hook_defs Let_def prim_defs trace_append less_SucI
        split: prod.splits if_splits)

lemma inv_createKeyedStateHook_invoke:
  "inv s \<Longrightarrow> inv (snd (render (createKeyedStateHook_invoke invoke prop) k s))"
  by (cases "cleanup s")
     (auto simp: inv_def hook_defs Let_def prim_defs trace_append less_SucI
        split: prod.splits if_splits)

lemma inv_createWrappedStateHook:
  "inv s \<Longrightarrow> inv (snd (render (createWrappedStateHook invoke prop) k s))"
  by (cases "cleanup s")
     (auto simp: inv_def hook_defs Let_def prim_defs trace_append less_SucI
        split: prod.splits if_splits)

lemma vinv_new: "vinv (newInstance fs iv w)"
  by (simp add: vinv_def newInstance_def)

lemma vinv_notify: "vinv s \<Longrightarrow> vinv (notify p v s)"
  by (auto simp: vinv_def notify_def)

lemma vinv_unmount: "vinv s \<Longrightarrow> vinv (unmount s)"
  by (cases "cleanup s") (auto simp: vinv_def unmount_def unsubscribe_def)

lemma vinv_createStateHook: "vinv s \<Longrightarrow> vinv (snd (render (createStateHook cfg) options s))"
  by (cases "cleanup s")
     (auto simp: vinv_def hook_defs Let_def prim_defs callbacks_same
        split: prod.splits if_splits)

lemma vinv_createKeyedStateHook: "vinv s \<Longrightarrow> vinv (snd (render (createKeyedStateHook cfg) options s))"
  by (cases "cleanup s")
     (auto simp: vinv_def hook_defs Let_def prim_defs callbacks_same
        split: prod.splits if_splits)






section \<open>Facts about reachable states\<close>

lemma slotOk_new: "slotOk iv (newInstance fs iv w)"
  by (simp add: slotOk_def newInstance_def)

lemma slotOk_notify: "slotOk iv s \<Longrightarrow> slotOk iv (notify p v s)"
  by (auto simp: slotOk_def notify_def)

lemma slotOk_unmount: "slotOk iv s \<Longrightarrow> slotOk iv (unmount s)"
  by (cases "cleanup s") (auto simp: slotOk_def unmount_def unsubscribe_def)

lemma slotOk_createStateHook: "slotOk iv s \<Longrightarrow> slotOk iv (snd (render (createStateHook cfg) options s))"
  by (cases "cleanup s")
     (auto simp: slotOk_def hook_defs Let_def prim_defs isUndefined_iff
        split: prod.splits if_splits)

lemma slotOk_createKeyedStateHook:
  "slotOk iv s \<Longrightarrow> slotOk iv (snd (render (createKeyedStateHook cfg) options s))"
  by (cases "cleanup s")
     (auto simp: slotOk_def hook_defs Let_def prim_defs isUndefined_iff
        split: prod.splits if_splits)

lemma slotOk_createStateHook_prop:
  "slotOk iv s \<Longrightarrow> slotOk iv (snd (render (createStateHook_prop prop) u s))"
  by (cases "cleanup s")
     (auto simp: slotOk_def hook_defs Let_def prim_defs isUndefined_iff
        split: prod.splits if_splits)

lemma inv_atProperty_createStateHook:
  "inv s \<Longrightarrow> atProperty (property cfg) s \<Longrightarrow>
   atProperty (property cfg) (snd (render (createStateHook cfg) options s))"
  by (cases "cleanup s")
     (auto simp: inv_def atProperty_def subscribedPaths_def hook_defs Let_def prim_defs
        split: prod.splits if_splits)

lemma inv_atKey_createKeyedStateHook:
  "inv s \<Longrightarrow> atKey (property cfg) s \<Longrightarrow>
   atKey (property cfg) (snd (render (createKeyedStateHook cfg) options s))"
  by (cases "cleanup s")
     (auto simp: inv_def atKey_def subscribedPaths_def hook_defs Let_def prim_defs
        split: prod.splits if_splits)

lemma atProperty_notify: "atProperty q s \<Longrightarrow> atProperty q (notify p v s)"
  by (auto simp: atProperty_def subscribedPaths_def notify_def)

lemma atProperty_unmount: "atProperty q s \<Longrightarrow> atProperty q (unmount s)"
  by (auto simp: atProperty_def unmount_def)

lemma atKey_notify: "atKey q s \<Longrightarrow> atKey q (notify p v s)"
  by (auto simp: atKey_def subscribedPaths_def notify_def)

lemma atKey_unmount: "atKey q s \<Longrightarrow> atKey q (unmount s)"
  by (auto simp: atKey_def unmount_def)

lemma okState_run: "okState cfg (run (createStateHook cfg) es (newFactory cfg fs w))"
proof (rule run_preserves)
  show "okState cfg (newFactory cfg fs w)"
    by (simp add: okState_def newFactory_def inv_new vinv_new slotOk_new)
       (simp add: atProperty_def newInstance_def)
qed (simp_all add: okState_def inv_createStateHook vinv_createStateHook slotOk_createStateHook
      inv_atProperty_createStateHook inv_notify vinv_notify slotOk_notify atProperty_notify
      inv_unmount vinv_unmount slotOk_unmount atProperty_unmount)

lemma okKeyed_run: "okKeyed cfg (run (createKeyedStateHook cfg) es (newFactory cfg fs w))"
proof (rule run_preserves)
  show "okKeyed cfg (newFactory cfg fs w)"
    by (simp add: okKeyed_def newFactory_def inv_new vinv_new slotOk_new)
       (simp add: atKey_def newInstance_def)
qed (simp_all add: okKeyed_def inv_createKeyedStateHook vinv_createKeyedStateHook
      slotOk_createKeyedStateHook inv_atKey_createKeyedStateHook inv_notify vinv_notify
      slotOk_notify atKey_notify inv_unmount vinv_unmount slotOk_unmount atKey_unmount)

lemma readValue_norm: "readValue st (if isUndefined c then Null else c) = readValue st c"
  by (cases c) (auto simp: readValue_def)

lemma live_subs:
  assumes "inv s" "vinv s" "subscribedPaths s = [p]"
  shows "mounted s \<and> (\<exists>h. subs s = [(h, p, stateHookCallback)])"
proof -
  from assms(3) obtain h cb where subs: "subs s = [(h, p, cb)]"
    by (cases "subs s") (auto simp: subscribedPaths_def)
  with assms(2) have "cb = stateHookCallback" by (simp add: vinv_def)
  moreover from assms(1) subs have "mounted s"
    by (cases "cleanup s") (auto simp: inv_def)
  ultimately show ?thesis using subs by simp
qed

lemma notify_live:
  assumes "inv s" "vinv s" "subscribedPaths s = [p]"
  shows "state (notify p v s) = stateAfter (funs s) (stateHookCallback v) (state s)"
  using live_subs [OF assms] by (auto simp: notify_def)

lemma notify_fields:
  "mounted (notify p v s) = mounted s"
  "initialValueCopy (notify p v s) = initialValueCopy s"
  "subs (notify p v s) = subs s"
  "trace (notify p v s) = trace s"
  "world (notify p v s) = world s"
  "cleanup (notify p v s) = cleanup s"
  "deps (notify p v s) = deps s"
  "funs (notify p v s) = funs s"
  by (simp_all add: notify_def)

lemma read_createStateHook:
  "mounted s \<Longrightarrow> fst (createStateHook cfg options s) = readValue (state s) (initialValueCopy s)"
  by (cases "initialValueCopy s")
     (auto simp: createStateHook_def Let_def useState_def normalizeCopy_def readValue_def
        split: prod.splits)

lemma read_createKeyedStateHook:
  "mounted s \<Longrightarrow>
   fst (createKeyedStateHook cfg options s) = readValue (state s) (initialValueCopy s)"
  by (auto simp: createKeyedStateHook_def Let_def useState_def split: prod.splits)

lemma render_keeps_createStateHook:
  assumes "mounted s"
  shows "mounted (snd (render (createStateHook cfg) options s)) \<and>
         state (snd (render (createStateHook cfg) options s)) = state s \<and>
         readValue st (initialValueCopy (snd (render (createStateHook cfg) options s)))
           = readValue st (initialValueCopy s)"
  using assms
  by (cases "cleanup s"; cases "initialValueCopy s")
     (auto simp: hook_defs Let_def prim_defs readValue_def split: prod.splits if_splits)

lemma render_keeps_createKeyedStateHook:
  assumes "mounted s"
  shows "mounted (snd (render (createKeyedStateHook cfg) options s)) \<and>
         state (snd (render (createKeyedStateHook cfg) options s)) = state s \<and>
         readValue st (initialValueCopy (snd (render (createKeyedStateHook cfg) options s)))
           = readValue st (initialValueCopy s)"
  using assms
  by (cases "cleanup s"; cases "initialValueCopy s")
     (auto simp: hook_defs Let_def prim_defs readValue_def split: prod.splits if_splits)

lemma renders_keep_createStateHook:
  "mounted s \<Longrightarrow>
   mounted (run (createStateHook cfg) (map Render os) s) \<and>
   state (run (createStateHook cfg) (map Render os) s) = state s \<and>
   readValue st (initialValueCopy (run (createStateHook cfg) (map Render os) s))
     = readValue st (initialValueCopy s)"
proof (induction os arbitrary: s)
  case Nil
  then show ?case by simp
next
  case (Cons a os)
  from render_keeps_createStateHook [OF Cons.prems, of cfg a st] Cons.IH
  show ?case by simp
qed

lemma renders_keep_createKeyedStateHook:
  "mounted s \<Longrightarrow>
   mounted (run (createKeyedStateHook cfg) (map Render os) s) \<and>
   state (run (createKeyedStateHook cfg) (map Render os) s) = state s \<and>
   readValue st (initialValueCopy (run (createKeyedStateHook cfg) (map Render os) s))
     = readValue st (initialValueCopy s)"
proof (induction os arbitrary: s)
  case Nil
  then show ?case by simp
next
  case (Cons a os)
  from render_keeps_createKeyedStateHook [OF Cons.prems, of cfg a st] Cons.IH
  show ?case by simp
qed

lemma slotOk_read: "slotOk iv s \<Longrightarrow> mounted s \<Longrightarrow> readValue st (initialValueCopy s) = readValue st iv"
  by (auto simp: slotOk_def readValue_norm)

lemma reads_after_notify_createStateHook:
  assumes ok: "okState cfg s" and m: "mounted s"
  shows "fst (createStateHook cfg options
           (run (createStateHook cfg) (map Render os) (notify (property cfg) v s)))
         = readValue (stateAfter (funs s) (stateHookCallback v) (state s)) (initialValue cfg)"
proof -
  let ?x = "stateAfter (funs s) (stateHookCallback v) (state s)"
  let ?n = "notify (property cfg) v s"
  let ?r = "run (createStateHook cfg) (map Render os) ?n"
  from ok m have paths: "subscribedPaths s = [property cfg]" and i: "inv s" and v: "vinv s"
    and sl: "slotOk (initialValue cfg) s"
    by (simp_all add: okState_def atProperty_def)
  have st: "state ?n = ?x" by (rule notify_live [OF i v paths])
  have mn: "mounted ?n" using m by (simp add: notify_fields)
  from renders_keep_createStateHook [OF mn, of cfg os ?x]
  have "mounted ?r" and "state ?r = ?x"
    and "readValue ?x (initialValueCopy ?r) = readValue ?x (initialValueCopy s)"
    by (simp_all add: st notify_fields)
  then show ?thesis
    using slotOk_read [OF sl m] by (simp add: read_createStateHook)
qed

lemma reads_after_notify_createKeyedStateHook:
  assumes ok: "okKeyed cfg s" and paths: "subscribedPaths s = [p]"
  shows "fst (createKeyedStateHook cfg options
           (run (createKeyedStateHook cfg) (map Render os) (notify p v s)))
         = readValue (stateAfter (funs s) (keyedStateHookCallback v) (state s))
             (initialValue cfg)"
proof -
  let ?x = "stateAfter (funs s) (stateHookCallback v) (state s)"
  let ?n = "notify p v s"
  let ?r = "run (createKeyedStateHook cfg) (map Render os) ?n"
  from ok have i: "inv s" and v: "vinv s" and sl: "slotOk (initialValue cfg) s"
    by (simp_all add: okKeyed_def)
  from live_subs [OF i v paths] have m: "mounted s" by simp
  have st: "state ?n = ?x" by (rule notify_live [OF i v paths])
  have mn: "mounted ?n" using m by (simp add: notify_fields)
  from renders_keep_createKeyedStateHook [OF mn, of cfg os ?x]
  have "mounted ?r" and "state ?r = ?x"
    and "readValue ?x (initialValueCopy ?r) = readValue ?x (initialValueCopy s)"
    by (simp_all add: st notify_fields)
  then show ?thesis
    using slotOk_read [OF sl m] by (simp add: read_createKeyedStateHook callbacks_same)
qed

section \<open>The value a hook returns is undefined only if a function makes it so\<close>

lemmas eval_defs = cartCfg_def productCfg_def withKey_def newFactory_def newInstance_def
  hook_defs prim_defs Let_def invokeActionOf_def actionArrOf_def keyOf_def actionFn_def
  readValue_def stateHookCallback_def keyedStateHookCallback_def propHookCallback_def
  invokeKeyedCallback_def wrappedHookCallback_def subscribedPaths_def demoFuns_def
  calmFuns_def

lemma run_preserves_when:
  assumes "P s" and "\<And>e s. e \<in> set es \<Longrightarrow> P s \<Longrightarrow> P (step hook e s)"
  shows "P (run hook es s)"
  using assms
proof (induction es arbitrary: s)
  case Nil
  then show ?case by simp
next
  case (Cons e es)
  have "P (step hook e s)" using Cons.prems by simp
  then show ?case using Cons.prems(2) by (simp add: Cons.IH)
qed






























section \<open>What a read returns after a notification\<close>

lemma funs_unmount: "funs (unmount s) = funs s"
  by (cases "cleanup s") (simp_all add: unmount_def unsubscribe_def)

lemma funs_createStateHook: "funs (snd (render (createStateHook cfg) options s)) = funs s"
  by (cases "cleanup s")
     (auto simp: hook_defs Let_def prim_defs split: prod.splits if_splits)

lemma funs_createKeyedStateHook:
  "funs (snd (render (createKeyedStateHook cfg) options s)) = funs s"
  by (cases "cleanup s")
     (auto simp: hook_defs Let_def prim_defs split: prod.splits if_splits)

lemma funs_run_createStateHook:
  "funs (run (createStateHook cfg) es (newFactory cfg fs w)) = fs"
proof (rule run_preserves)
  show "funs (newFactory cfg fs w) = fs" by (simp add: newFactory_def newInstance_def)
qed (simp_all add: funs_createStateHook notify_fields funs_unmount)

lemma funs_run_createKeyedStateHook:
  "funs (run (createKeyedStateHook cfg) es (newFactory cfg fs w)) = fs"
proof (rule run_preserves)
  show "funs (newFactory cfg fs w) = fs" by (simp add: newFactory_def newInstance_def)
qed (simp_all add: funs_createKeyedStateHook notify_fields funs_unmount)

lemma readValue_callback:
  "\<not> isUndefined v \<Longrightarrow>
   readValue (stateAfter fs (stateHookCallback v) st) iv
     = (case v of Fn f \<Rightarrow> readValue (fs f st) iv
        | _ \<Rightarrow> if v = Null \<and> \<not> isNil iv then iv else v)"
  by (cases v) (auto simp: readValue_def stateHookCallback_def)

text \<open>
  Claim C1, as stated, fails for a delivered null and for a delivered function. The cart
  hook has the fallback \<open>[]\<close> and is mounted. It receives null for \<open>cart\<close>, and the
  next read returns \<open>[]\<close>, not null. It receives the list \<open>[1]\<close> and then function 2 of
  \<open>demoFuns\<close>, which doubles a list: the callback hands the function to \<open>setState\<close>,
  React takes it for an updater, and the next read returns \<open>[1, 1]\<close>, not the function.
\<close>

theorem delivered_null_reads_fallback:
  "fst (createStateHook cartCfg None
         (run (createStateHook cartCfg) [Render None, Notify ''cart'' Null]
            (newFactory cartCfg demoFuns 0))) = Val [] \<and>
   fst (createStateHook cartCfg None
         (run (createStateHook cartCfg)
            [Render None, Notify ''cart'' (Val [1]), Notify ''cart'' (Fn 2)]
            (newFactory cartCfg demoFuns 0))) = Val [1, 1]"
  by (simp add: eval_defs)

text \<open>
  Claim C1, amended. A notification that delivers a value \<open>v\<close> other than undefined to
  the live subscription of a hook with an options object (plain or keyed) makes the next
  read return \<open>v\<close> itself, whatever the fallback, when \<open>v\<close> is neither null nor a
  function. A delivered null is stored as null, and the read then returns the fallback if
  there is a non-nil one, and null otherwise. A delivered function is applied to the
  state held so far, its result is stored, and the read returns that result under the
  same read contract.
\<close>

theorem delivered_value_is_read:
  assumes "\<not> isUndefined v"
  shows
    "(mounted (run (createStateHook cfg) es (newFactory cfg fs w)) \<longrightarrow>
        fst (createStateHook cfg options
              (notify (property cfg) v (run (createStateHook cfg) es (newFactory cfg fs w))))
          = (case v of
               Fn f \<Rightarrow>
                 readValue (fs f (state (run (createStateHook cfg) es (newFactory cfg fs w))))
                   (initialValue cfg)
             | _ \<Rightarrow> if v = Null \<and> \<not> isNil (initialValue cfg) then initialValue cfg else v)) \<and>
     (subscribedPaths (run (createKeyedStateHook cfg') es' (newFactory cfg' fs' w')) = [p] \<longrightarrow>
        fst (createKeyedStateHook cfg' options'
              (notify p v (run (createKeyedStateHook cfg') es' (newFactory cfg' fs' w'))))
          = (case v of
               Fn f \<Rightarrow>
                 readValue
                   (fs' f (state (run (createKeyedStateHook cfg') es' (newFactory cfg' fs' w'))))
                   (initialValue cfg')
             | _ \<Rightarrow> if v = Null \<and> \<not> isNil (initialValue cfg') then initialValue cfg' else v))"
proof (intro conjI impI)
  let ?s = "run (createStateHook cfg) es (newFactory cfg fs w)"
  assume m: "mounted ?s"
  from reads_after_notify_createStateHook [OF okState_run m, where options = options
      and os = "[]" and v = v]
  show "fst (createStateHook cfg options (notify (property cfg) v ?s))
          = (case v of Fn f \<Rightarrow> readValue (fs f (state ?s)) (initialValue cfg)
             | _ \<Rightarrow> if v = Null \<and> \<not> isNil (initialValue cfg) then initialValue cfg else v)"
    using assms by (simp add: readValue_callback funs_run_createStateHook)
next
  let ?s = "run (createKeyedStateHook cfg') es' (newFactory cfg' fs' w')"
  assume p: "subscribedPaths ?s = [p]"
  from reads_after_notify_createKeyedStateHook [OF okKeyed_run p, where options = options'
      and os = "[]" and v = v]
  show "fst (createKeyedStateHook cfg' options' (notify p v ?s))
          = (case v of Fn f \<Rightarrow> readValue (fs' f (state ?s)) (initialValue cfg')
             | _ \<Rightarrow> if v = Null \<and> \<not> isNil (initialValue cfg') then initialValue cfg' else v)"
    using assms by (simp add: readValue_callback callbacks_same funs_run_createKeyedStateHook)
qed

text \<open>
  The amended claim at work: the mounted cart hook and the product hook keyed by
  \<open>sku-1\<close> each receive the list \<open>[1]\<close> and return it; the cart hook that holds
  \<open>[1]\<close> receives function 2 of \<open>demoFuns\<close> and returns \<open>[1, 1]\<close>.
\<close>

theorem delivered_value_is_read_witness:
  "\<not> isUndefined (Val [1::nat]) \<and>
   mounted (run (createStateHook cartCfg) [Render None] (newFactory cartCfg demoFuns 0)) \<and>
   fst (createStateHook cartCfg None
         (notify (property cartCfg) (Val [1])
            (run (createStateHook cartCfg) [Render None] (newFactory cartCfg demoFuns 0)))) = Val [1] \<and>
   subscribedPaths (run (createKeyedStateHook productCfg) [Render (withKey (Val (KStr ''sku-1'')))]
      (newFactory productCfg demoFuns 0)) = [''product.sku-1''] \<and>
   fst (createKeyedStateHook productCfg (withKey (Val (KStr ''sku-1'')))
         (notify ''product.sku-1'' (Val [1])
            (run (createKeyedStateHook productCfg) [Render (withKey (Val (KStr ''sku-1'')))]
               (newFactory productCfg demoFuns 0)))) = Val [1] \<and>
   \<not> isUndefined (Fn 2 :: nat list js) \<and>
   mounted (run (createStateHook cartCfg) [Render None, Notify ''cart'' (Val [1])]
      (newFactory cartCfg demoFuns 0)) \<and>
   fst (createStateHook cartCfg None
         (notify (property cartCfg) (Fn 2)
            (run (createStateHook cartCfg) [Render None, Notify ''cart'' (Val [1])]
               (newFactory cartCfg demoFuns 0)))) = Val [1, 1]"
proof -
  have u: "\<not> isUndefined (Val [1::nat])" by simp
  have u': "\<not> isUndefined (Fn 2 :: nat list js)" by simp
  have m: "mounted (run (createStateHook cartCfg) [Render None] (newFactory cartCfg demoFuns 0))"
    by (simp add: eval_defs)
  have m': "mounted (run (createStateHook cartCfg) [Render None, Notify ''cart'' (Val [1])]
      (newFactory cartCfg demoFuns 0))"
    by (simp add: eval_defs)
  have p: "subscribedPaths (run (createKeyedStateHook productCfg)
             [Render (withKey (Val (KStr ''sku-1'')))] (newFactory productCfg demoFuns 0))
           = [''product.sku-1'']"
    by (simp add: eval_defs)
  have st: "state (run (createStateHook cartCfg) [Render None, Notify ''cart'' (Val [1])]
      (newFactory cartCfg demoFuns 0)) = Val [1]"
    by (simp add: eval_defs)
  note T = delivered_value_is_read [OF u, where cfg = cartCfg and es = "[Render None]"
      and fs = demoFuns and w = 0 and options = None and cfg' = productCfg
      and es' = "[Render (withKey (Val (KStr ''sku-1'')))]" and fs' = demoFuns and w' = 0
      and p = "''product.sku-1''" and options' = "withKey (Val (KStr ''sku-1''))"]
  note T' = delivered_value_is_read [OF u', where cfg = cartCfg
      and es = "[Render None, Notify ''cart'' (Val [1])]"
      and fs = demoFuns and w = 0 and options = None]
  have c1: "fst (createStateHook cartCfg None
         (notify (property cartCfg) (Val [1])
            (run (createStateHook cartCfg) [Render None] (newFactory cartCfg demoFuns 0)))) = Val [1]"
    using T [THEN conjunct1, THEN mp, OF m] by simp
  have c2: "fst (createKeyedStateHook productCfg (withKey (Val (KStr ''sku-1'')))
         (notify ''product.sku-1'' (Val [1])
            (run (createKeyedStateHook productCfg) [Render (withKey (Val (KStr ''sku-1'')))]
               (newFactory productCfg demoFuns 0)))) = Val [1]"
    using T [THEN conjunct2, THEN mp, OF p] by simp
  have c3: "fst (createStateHook cartCfg None
         (notify (property cartCfg) (Fn 2)
            (run (createStateHook cartCfg) [Render None, Notify ''cart'' (Val [1])]
               (newFactory cartCfg demoFuns 0)))) = Val [1, 1]"
    unfolding T' [THEN conjunct1, THEN mp, OF m'] st
    by (simp add: readValue_def demoFuns_def cartCfg_def)
  show ?thesis
    by (simp only: u u' m m' p c1 c2 c3 simp_thms)
qed

section \<open>The subscription callback\<close>

lemma stateAfter_callback:
  "stateAfter fs (stateHookCallback v) st
     = (case v of Undefined \<Rightarrow> Null | Fn f \<Rightarrow> fs f st | _ \<Rightarrow> v)"
  by (cases v) (simp_all add: stateHookCallback_def)

lemma readValue_no_value: "readValue Null iv = (if isNil iv then Null else iv)"
  by (simp add: readValue_def)

text \<open>
  Claim C3, as stated, fails for a delivered null: the callback stores it as it is, and
  null is the very value the callback stores for undefined. Here the mounted cart hook has
  seen \<open>[1]\<close>, receives null, which is not undefined, and its state is the no-value marker.
  It fails for a delivered function as well: the callback hands it to \<open>setState\<close>, React
  takes it for an updater, and the state is what the function makes of the state held so
  far, here \<open>[1, 1]\<close> for function 2 of \<open>demoFuns\<close>, not the function.
\<close>

theorem delivered_null_is_no_value_marker:
  "state (notify ''cart'' Null
            (run (createStateHook cartCfg) [Render None, Notify ''cart'' (Val [1])]
               (newFactory cartCfg demoFuns 0))) = Null \<and>
   \<not> isUndefined (Null :: nat list js) \<and>
   state (notify ''cart'' (Fn 2)
            (run (createStateHook cartCfg) [Render None, Notify ''cart'' (Val [1])]
               (newFactory cartCfg demoFuns 0))) = Val [1, 1] \<and>
   \<not> isUndefined (Fn 2 :: nat list js)"
  by (simp add: eval_defs)

text \<open>
  Claim C3, amended. The callback hands to \<open>setState\<close> null, the no-value marker, if
  the delivered value is undefined, and the delivered value itself otherwise. The callbacks
  of all the hook variants are this one function. The state of a hook with a live
  subscription is then null for a delivered undefined, the result of applying the
  delivered value to the state held so far when it is a function, and the delivered value
  itself in every other case (so a delivered null leaves null as well). After an undefined notification every read, until the next
  notification, returns the fallback if there is a non-nil one and null otherwise,
  whatever was observed before.
\<close>

theorem callback_normalises_undefined:
  "stateHookCallback v = (if isUndefined v then Null else v) \<and>
   keyedStateHookCallback v = stateHookCallback v \<and>
   propHookCallback v = stateHookCallback v \<and>
   invokeKeyedCallback v = stateHookCallback v \<and>
   wrappedHookCallback v = stateHookCallback v \<and>
   (mounted (run (createStateHook cfg) es (newFactory cfg fs w)) \<longrightarrow>
      state (notify (property cfg) v (run (createStateHook cfg) es (newFactory cfg fs w)))
        = (case v of
             Undefined \<Rightarrow> Null
           | Fn f \<Rightarrow> fs f (state (run (createStateHook cfg) es (newFactory cfg fs w)))
           | _ \<Rightarrow> v) \<and>
      fst (createStateHook cfg options
            (run (createStateHook cfg) (map Render os)
               (notify (property cfg) Undefined
                  (run (createStateHook cfg) es (newFactory cfg fs w)))))
        = (if isNil (initialValue cfg) then Null else initialValue cfg)) \<and>
   (subscribedPaths (run (createKeyedStateHook cfg') es' (newFactory cfg' fs' w')) = [p] \<longrightarrow>
      state (notify p v (run (createKeyedStateHook cfg') es' (newFactory cfg' fs' w')))
        = (case v of
             Undefined \<Rightarrow> Null
           | Fn f \<Rightarrow> fs' f (state (run (createKeyedStateHook cfg') es' (newFactory cfg' fs' w')))
           | _ \<Rightarrow> v) \<and>
      fst (createKeyedStateHook cfg' options'
            (run (createKeyedStateHook cfg') (map Render os')
               (notify p Undefined
                  (run (createKeyedStateHook cfg') es' (newFactory cfg' fs' w')))))
        = (if isNil (initialValue cfg') then Null else initialValue cfg'))"
proof (intro conjI impI)
  show "stateHookCallback v = (if isUndefined v then Null else v)"
    by (simp add: stateHookCallback_def)
next
  show "keyedStateHookCallback v = stateHookCallback v"
    "propHookCallback v = stateHookCallback v"
    "invokeKeyedCallback v = stateHookCallback v"
    "wrappedHookCallback v = stateHookCallback v"
    by (simp_all add: callbacks_same)
next
  let ?s = "run (createStateHook cfg) es (newFactory cfg fs w)"
  assume m: "mounted ?s"
  have ok: "okState cfg ?s" by (rule okState_run)
  with m have "subscribedPaths ?s = [property cfg]"
    by (simp add: okState_def atProperty_def)
  with ok show "state (notify (property cfg) v ?s)
      = (case v of Undefined \<Rightarrow> Null | Fn f \<Rightarrow> fs f (state ?s) | _ \<Rightarrow> v)"
    by (simp add: okState_def notify_live stateAfter_callback funs_run_createStateHook)
  from reads_after_notify_createStateHook [OF ok m, where options = options and os = os and v = Undefined]
  show "fst (createStateHook cfg options
              (run (createStateHook cfg) (map Render os) (notify (property cfg) Undefined ?s)))
        = (if isNil (initialValue cfg) then Null else initialValue cfg)"
    by (simp add: stateHookCallback_def readValue_no_value)
next
  let ?s = "run (createKeyedStateHook cfg') es' (newFactory cfg' fs' w')"
  assume p: "subscribedPaths ?s = [p]"
  have ok: "okKeyed cfg' ?s" by (rule okKeyed_run)
  with p show "state (notify p v ?s)
      = (case v of Undefined \<Rightarrow> Null | Fn f \<Rightarrow> fs' f (state ?s) | _ \<Rightarrow> v)"
    by (simp add: okKeyed_def notify_live stateAfter_callback funs_run_createKeyedStateHook)
  from reads_after_notify_createKeyedStateHook [OF ok p, where options = options' and os = os' and v = Undefined]
  show "fst (createKeyedStateHook cfg' options'
              (run (createKeyedStateHook cfg') (map Render os') (notify p Undefined ?s)))
        = (if isNil (initialValue cfg') then Null else initialValue cfg')"
    by (simp add: keyedStateHookCallback_def readValue_no_value)
qed

text \<open>
  The amended claim at work: the mounted cart hook has seen \<open>[1]\<close>, then receives
  undefined; its state is null and the reads that follow return the fallback \<open>[]\<close>. The
  product hook, keyed by \<open>sku-1\<close> and without a fallback, returns null. The cart hook
  that has seen \<open>[1]\<close> and receives function 2 of \<open>demoFuns\<close> holds \<open>[1, 1]\<close>.
\<close>

theorem callback_normalises_undefined_witness:
  "mounted (run (createStateHook cartCfg) [Render None, Notify ''cart'' (Val [1])]
      (newFactory cartCfg demoFuns 0)) \<and>
   state (notify (property cartCfg) Undefined
      (run (createStateHook cartCfg) [Render None, Notify ''cart'' (Val [1])]
         (newFactory cartCfg demoFuns 0))) = Null \<and>
   fst (createStateHook cartCfg None
      (run (createStateHook cartCfg) (map Render [None, None])
         (notify (property cartCfg) Undefined
            (run (createStateHook cartCfg) [Render None, Notify ''cart'' (Val [1])]
               (newFactory cartCfg demoFuns 0))))) = Val [] \<and>
   subscribedPaths (run (createKeyedStateHook productCfg)
      [Render (withKey (Val (KStr ''sku-1'')))] (newFactory productCfg demoFuns 0))
     = [''product.sku-1''] \<and>
   fst (createKeyedStateHook productCfg (withKey (Val (KStr ''sku-1'')))
      (run (createKeyedStateHook productCfg) (map Render [])
         (notify ''product.sku-1'' Undefined
            (run (createKeyedStateHook productCfg)
               [Render (withKey (Val (KStr ''sku-1'')))] (newFactory productCfg demoFuns 0)))))
     = Null \<and>
   state (notify (property cartCfg) (Fn 2)
      (run (createStateHook cartCfg) [Render None, Notify ''cart'' (Val [1])]
         (newFactory cartCfg demoFuns 0))) = Val [1, 1]"
proof -
  have m: "mounted (run (createStateHook cartCfg) [Render None, Notify ''cart'' (Val [1])]
      (newFactory cartCfg demoFuns 0))"
    by (simp add: eval_defs)
  have p: "subscribedPaths (run (createKeyedStateHook productCfg)
      [Render (withKey (Val (KStr ''sku-1'')))] (newFactory productCfg demoFuns 0))
     = [''product.sku-1'']"
    by (simp add: eval_defs)
  have iv: "initialValue cartCfg = Val []" "initialValue productCfg = Undefined"
    by (simp_all add: cartCfg_def productCfg_def)
  have st: "state (run (createStateHook cartCfg) [Render None, Notify ''cart'' (Val [1])]
      (newFactory cartCfg demoFuns 0)) = Val [1]"
    by (simp add: eval_defs)
  note T = callback_normalises_undefined [where v = Undefined and cfg = cartCfg
      and es = "[Render None, Notify ''cart'' (Val [1])]" and fs = demoFuns and w = 0
      and options = None and os = "[None, None]" and cfg' = productCfg
      and es' = "[Render (withKey (Val (KStr ''sku-1'')))]" and fs' = demoFuns and w' = 0
      and p = "''product.sku-1''" and options' = "withKey (Val (KStr ''sku-1''))"
      and os' = "[]"]
  note T' = callback_normalises_undefined [where v = "Fn 2" and cfg = cartCfg
      and es = "[Render None, Notify ''cart'' (Val [1])]" and fs = demoFuns and w = 0]
  note A = T [THEN conjunct2, THEN conjunct2, THEN conjunct2, THEN conjunct2, THEN conjunct2,
      THEN conjunct1, THEN mp, OF m]
  note B = T [THEN conjunct2, THEN conjunct2, THEN conjunct2, THEN conjunct2, THEN conjunct2,
      THEN conjunct2, THEN mp, OF p]
  note A' = T' [THEN conjunct2, THEN conjunct2, THEN conjunct2, THEN conjunct2, THEN conjunct2,
      THEN conjunct1, THEN mp, OF m]
  have c1: "state (notify (property cartCfg) Undefined
      (run (createStateHook cartCfg) [Render None, Notify ''cart'' (Val [1])]
         (newFactory cartCfg demoFuns 0))) = Null"
    using A [THEN conjunct1] by simp
  have c2: "fst (createStateHook cartCfg None
      (run (createStateHook cartCfg) (map Render [None, None])
         (notify (property cartCfg) Undefined
            (run (createStateHook cartCfg) [Render None, Notify ''cart'' (Val [1])]
               (newFactory cartCfg demoFuns 0))))) = Val []"
    unfolding A [THEN conjunct2] by (simp add: iv)
  have c3: "fst (createKeyedStateHook productCfg (withKey (Val (KStr ''sku-1'')))
      (run (createKeyedStateHook productCfg) (map Render [])
         (notify ''product.sku-1'' Undefined
            (run (createKeyedStateHook productCfg)
               [Render (withKey (Val (KStr ''sku-1'')))] (newFactory productCfg demoFuns 0)))))
     = Null"
    unfolding B [THEN conjunct2] by (simp add: iv)
  have c4: "state (notify (property cartCfg) (Fn 2)
      (run (createStateHook cartCfg) [Render None, Notify ''cart'' (Val [1])]
         (newFactory cartCfg demoFuns 0))) = Val [1, 1]"
    unfolding A' [THEN conjunct1] st by (simp add: demoFuns_def)
  show ?thesis
    by (simp only: m p c1 c2 c3 c4 simp_thms)
qed

section \<open>The fallback value\<close>




lemma quiet_read_createKeyedStateHook:
  assumes "slotOk iv s" and "mounted s \<longrightarrow> state s = Null"
  shows "fst (createKeyedStateHook cfg options s) = (if isUndefined iv then Null else iv)"
  using assms
  by (cases iv)
     (auto simp: slotOk_def createKeyedStateHook_def Let_def useState_def
        readValue_def split: prod.splits if_splits)






section \<open>The fallback slot\<close>

lemma slot_kept_createStateHook:
  "\<not> isUndefined (initialValueCopy s) \<Longrightarrow>
   initialValueCopy (snd (render (createStateHook cfg) options s)) = initialValueCopy s"
  by (cases "cleanup s")
     (auto simp: hook_defs Let_def prim_defs split: prod.splits if_splits)

lemma slot_kept_createKeyedStateHook:
  "\<not> isUndefined (initialValueCopy s) \<Longrightarrow>
   initialValueCopy (snd (render (createKeyedStateHook cfg) options s)) = initialValueCopy s"
  by (cases "cleanup s")
     (auto simp: hook_defs Let_def prim_defs split: prod.splits if_splits)

lemma slot_kept_createStateHook_prop:
  "\<not> isUndefined (initialValueCopy s) \<Longrightarrow>
   initialValueCopy (snd (render (createStateHook_prop prop) u s)) = initialValueCopy s"
  by (cases "cleanup s")
     (auto simp: hook_defs Let_def prim_defs split: prod.splits if_splits)

lemma slot_unmount: "initialValueCopy (unmount s) = initialValueCopy s"
  by (cases "cleanup s") (simp_all add: unmount_def unsubscribe_def)

lemma slot_kept_run:
  fixes s :: "('a, 'b, 'w) sys"
  assumes "\<not> isUndefined (initialValueCopy s)"
    and "\<And>i t :: ('a, 'b, 'w) sys. \<not> isUndefined (initialValueCopy t) \<Longrightarrow>
           initialValueCopy (snd (render hook i t)) = initialValueCopy t"
  shows "initialValueCopy (run hook es s) = initialValueCopy s"
proof -
  let ?P = "\<lambda>t :: ('a, 'b, 'w) sys. initialValueCopy t = initialValueCopy s"
  have "?P (run hook es s)"
    by (rule run_preserves) (simp_all add: assms notify_fields slot_unmount)
  then show ?thesis .
qed

lemma slot_set_createStateHook:
  "slotOk iv s \<Longrightarrow>
   initialValueCopy (snd (render (createStateHook cfg) options s))
     = (if isUndefined iv then Null else iv)"
  by (cases "cleanup s")
     (auto simp: slotOk_def hook_defs Let_def prim_defs isUndefined_iff
        split: prod.splits if_splits)

lemma slot_set_createKeyedStateHook:
  "slotOk iv s \<Longrightarrow>
   initialValueCopy (snd (render (createKeyedStateHook cfg) options s))
     = (if isUndefined iv then Null else iv)"
  by (cases "cleanup s")
     (auto simp: slotOk_def hook_defs Let_def prim_defs isUndefined_iff
        split: prod.splits if_splits)

lemma slot_set_createStateHook_prop:
  "slotOk iv s \<Longrightarrow>
   initialValueCopy (snd (render (createStateHook_prop prop) u s))
     = (if isUndefined iv then Null else iv)"
  by (cases "cleanup s")
     (auto simp: slotOk_def hook_defs Let_def prim_defs isUndefined_iff
        split: prod.splits if_splits)

lemma norm_defined: "\<not> isUndefined (if isUndefined iv then Null else iv)"
  by simp

lemma slotOk_run_createStateHook:
  "slotOk (initialValue cfg) (run (createStateHook cfg) es (newFactory cfg fs w))"
  using okState_run [where cfg = cfg and es = es and fs = fs and w = w] by (simp add: okState_def)

lemma slotOk_run_createKeyedStateHook:
  "slotOk (initialValue cfg) (run (createKeyedStateHook cfg) es (newFactory cfg fs w))"
  using okKeyed_run [where cfg = cfg and es = es and fs = fs and w = w] by (simp add: okKeyed_def)

lemma slotOk_run_createStateHook_prop:
  "slotOk iv (run (createStateHook_prop prop) es (newInstance fs iv w))"
  by (rule run_preserves)
     (simp_all add: slotOk_new slotOk_createStateHook_prop slotOk_notify slotOk_unmount)

lemma slot_after_render_createStateHook:
  "initialValueCopy (run (createStateHook cfg) (es @ Render options # es') (newFactory cfg fs w))
   = (if isUndefined (initialValue cfg) then Null else initialValue cfg)"
proof -
  let ?s = "snd (render (createStateHook cfg) options
                  (run (createStateHook cfg) es (newFactory cfg fs w)))"
  have s: "initialValueCopy ?s = (if isUndefined (initialValue cfg) then Null else initialValue cfg)"
    by (rule slot_set_createStateHook [OF slotOk_run_createStateHook])
  have "\<not> isUndefined (initialValueCopy ?s)" unfolding s by (rule norm_defined)
  then have "initialValueCopy (run (createStateHook cfg) es' ?s) = initialValueCopy ?s"
    by (rule slot_kept_run) (rule slot_kept_createStateHook)
  with s show ?thesis by (simp add: run_append)
qed

lemma slot_after_render_createKeyedStateHook:
  "initialValueCopy
     (run (createKeyedStateHook cfg) (es @ Render options # es') (newFactory cfg fs w))
   = (if isUndefined (initialValue cfg) then Null else initialValue cfg)"
proof -
  let ?s = "snd (render (createKeyedStateHook cfg) options
                  (run (createKeyedStateHook cfg) es (newFactory cfg fs w)))"
  have s: "initialValueCopy ?s = (if isUndefined (initialValue cfg) then Null else initialValue cfg)"
    by (rule slot_set_createKeyedStateHook [OF slotOk_run_createKeyedStateHook])
  have "\<not> isUndefined (initialValueCopy ?s)" unfolding s by (rule norm_defined)
  then have "initialValueCopy (run (createKeyedStateHook cfg) es' ?s) = initialValueCopy ?s"
    by (rule slot_kept_run) (rule slot_kept_createKeyedStateHook)
  with s show ?thesis by (simp add: run_append)
qed

lemma slot_after_render_createStateHook_prop:
  "initialValueCopy
     (run (createStateHook_prop prop) (es @ Render u # es')
        (newInstance fs iv w :: ('a, 'b, 'w) sys))
   = (if isUndefined iv then Null else iv)"
proof -
  let ?s = "snd (render (createStateHook_prop prop) u
                  (run (createStateHook_prop prop) es (newInstance fs iv w :: ('a, 'b, 'w) sys)))"
  have s: "initialValueCopy ?s = (if isUndefined iv then Null else iv)"
    by (rule slot_set_createStateHook_prop [OF slotOk_run_createStateHook_prop])
  have "\<not> isUndefined (initialValueCopy ?s)" unfolding s by (rule norm_defined)
  then have "initialValueCopy (run (createStateHook_prop prop) es' ?s) = initialValueCopy ?s"
    by (rule slot_kept_run) (rule slot_kept_createStateHook_prop)
  with s show ?thesis by (simp add: run_append)
qed

text \<open>
  Claim C9. The fallback slot starts as the configured initial value. The first call of
  the hook normalises it (undefined becomes null, anything else stays), and from then on,
  whatever renders, notifications and unmounts follow, the slot keeps that value: it is
  never undefined again and never changes. More generally no sequence of events changes
  a slot that is not undefined.
\<close>

theorem fallback_slot_normalised_once:
  "initialValueCopy (newFactory cfg fs w) = initialValue cfg \<and>
   initialValueCopy (run (createStateHook cfg) (ea @ Render oa # ea') (newFactory cfg fs w))
     = (if isUndefined (initialValue cfg) then Null else initialValue cfg) \<and>
   initialValueCopy (run (createKeyedStateHook cfg) (eb @ Render ob # eb') (newFactory cfg fs w))
     = (if isUndefined (initialValue cfg) then Null else initialValue cfg) \<and>
   initialValueCopy (run (createStateHook_prop prop) (ec @ Render () # ec') (newInstance fs iv w))
     = (if isUndefined iv then Null else iv) \<and>
   (\<not> isUndefined (initialValueCopy s) \<longrightarrow>
      initialValueCopy (run (createStateHook cfg) ed s) = initialValueCopy s \<and>
      initialValueCopy (run (createKeyedStateHook cfg) ee s) = initialValueCopy s \<and>
      initialValueCopy (run (createStateHook_prop prop) ef s) = initialValueCopy s)"
proof (intro conjI impI)
  show "initialValueCopy (newFactory cfg fs w) = initialValue cfg"
    by (simp add: newFactory_def newInstance_def)
next
  assume d: "\<not> isUndefined (initialValueCopy s)"
  show "initialValueCopy (run (createStateHook cfg) ed s) = initialValueCopy s"
    using d by (rule slot_kept_run) (rule slot_kept_createStateHook)
  show "initialValueCopy (run (createKeyedStateHook cfg) ee s) = initialValueCopy s"
    using d by (rule slot_kept_run) (rule slot_kept_createKeyedStateHook)
  show "initialValueCopy (run (createStateHook_prop prop) ef s) = initialValueCopy s"
    using d by (rule slot_kept_run) (rule slot_kept_createStateHook_prop)
qed (rule slot_after_render_createStateHook slot_after_render_createKeyedStateHook
      slot_after_render_createStateHook_prop)+

text \<open>
  The claim at work: the product configuration has no initial value, so the slot is null
  after the first render and stays null through a key change, a notification and an
  unmount; the cart's slot \<open>[]\<close> survives the same events.
\<close>

theorem fallback_slot_normalised_once_witness:
  "initialValueCopy (newFactory productCfg demoFuns 0) = Undefined \<and>
   initialValueCopy (run (createKeyedStateHook productCfg)
      ([] @ Render (withKey Undefined) #
         [Render (withKey (Val (KStr ''sku-1''))), Notify ''product.sku-1'' (Val [1]), Unmount])
      (newFactory productCfg demoFuns 0)) = Null \<and>
   \<not> isUndefined (initialValueCopy
      (run (createStateHook cartCfg) [Render None] (newFactory cartCfg demoFuns 0))) \<and>
   initialValueCopy (run (createStateHook cartCfg) [Notify ''cart'' Undefined, Unmount, Render None]
      (run (createStateHook cartCfg) [Render None] (newFactory cartCfg demoFuns 0))) = Val []"
proof -
  let ?s = "run (createStateHook cartCfg) [Render None] (newFactory cartCfg demoFuns 0)"
  have iv: "initialValue productCfg = Undefined" by (simp add: productCfg_def)
  have d: "\<not> isUndefined (initialValueCopy ?s)" by (simp add: eval_defs)
  have c: "initialValueCopy ?s = Val []" by (simp add: eval_defs)
  note T = fallback_slot_normalised_once [where cfg = productCfg and w = 0 and eb = "[]"
      and ob = "withKey Undefined"
      and eb' = "[Render (withKey (Val (KStr ''sku-1''))), Notify ''product.sku-1'' (Val [1]),
                 Unmount]"]
  note U = fallback_slot_normalised_once [where cfg = cartCfg and s = ?s
      and ed = "[Notify ''cart'' Undefined, Unmount, Render None]"]
  have r1: "initialValueCopy (newFactory productCfg demoFuns 0) = Undefined"
    by (rule trans [OF T [THEN conjunct1] iv])
  have r2: "initialValueCopy (run (createKeyedStateHook productCfg)
      ([] @ Render (withKey Undefined) #
         [Render (withKey (Val (KStr ''sku-1''))), Notify ''product.sku-1'' (Val [1]), Unmount])
      (newFactory productCfg demoFuns 0)) = Null"
    using T [THEN conjunct2, THEN conjunct2, THEN conjunct1] by (simp only: iv isUndefined.simps if_True)
  have r3: "initialValueCopy (run (createStateHook cartCfg)
      [Notify ''cart'' Undefined, Unmount, Render None] ?s) = Val []"
    by (rule trans [OF U [THEN conjunct2, THEN conjunct2, THEN conjunct2, THEN conjunct2,
          THEN mp, OF d, THEN conjunct1] c])
  show ?thesis
    by (simp only: r1 r2 r3 d simp_thms)
qed
section \<open>What one render adds to the trace\<close>

lemma render_createStateHook_trace:
  "trace (snd (render (createStateHook cfg) options s)) =
     (if mounted s \<and> sameDeps (deps s) (DFlag (invokeActionOf options) # map DArg (actionArrOf options))
      then trace s
      else trace s @ (if mounted s then map Unsubscribe (handles (cleanup s)) else []) @
           (if invokeActionOf options then [ActionCall (actionArrOf options)] else []) @
           [Subscribe (nextHandle s) (property cfg)])"
  by (cases "cleanup s")
     (auto simp: hook_defs Let_def prim_defs split: prod.splits if_splits)

lemma render_createStateHook_world:
  "world (snd (render (createStateHook cfg) options s)) =
     (if mounted s \<and> sameDeps (deps s) (DFlag (invokeActionOf options) # map DArg (actionArrOf options))
      then world s
      else if invokeActionOf options then actionFn cfg (actionArrOf options) (world s)
      else world s)"
  by (cases "cleanup s")
     (auto simp: hook_defs Let_def prim_defs split: prod.splits if_splits)

lemma render_createKeyedStateHook_trace:
  "trace (snd (render (createKeyedStateHook cfg) options s)) =
     (if mounted s \<and> sameDeps (deps s) (DKey (keyOf options) # DFlag (invokeActionOf options) #
                                 map DArg (actionArrOf options))
      then trace s
      else trace s @ (if mounted s then map Unsubscribe (handles (cleanup s)) else []) @
           (if isNil (keyOf options) then []
            else (if invokeActionOf options then [ActionCall (actionArrOf options)] else []) @
                 [Subscribe (nextHandle s) (property cfg @ ''.'' @ toText (keyOf options))]))"
  by (cases "cleanup s")
     (auto simp: hook_defs Let_def prim_defs split: prod.splits if_splits)

lemma render_createKeyedStateHook_world:
  "world (snd (render (createKeyedStateHook cfg) options s)) =
     (if mounted s \<and> sameDeps (deps s) (DKey (keyOf options) # DFlag (invokeActionOf options) #
                                 map DArg (actionArrOf options))
      then world s
      else if \<not> isNil (keyOf options) \<and> invokeActionOf options
      then actionFn cfg (actionArrOf options) (world s)
      else world s)"
  by (cases "cleanup s")
     (auto simp: hook_defs Let_def prim_defs split: prod.splits if_splits)

lemma render_createWrappedStateHook_trace:
  "trace (snd (render (createWrappedStateHook invoke prop) param s)) =
     (if mounted s \<and> sameDeps (deps s) [DKey param] then trace s
      else trace s @ (if mounted s then map Unsubscribe (handles (cleanup s)) else []) @
           [InvokeCall param, Subscribe (nextHandle s) prop])"
  by (cases "cleanup s")
     (auto simp: hook_defs Let_def prim_defs split: prod.splits if_splits)

lemma render_createStateHook_prop_trace:
  "trace (snd (render (createStateHook_prop prop) u s)) =
     (if mounted s \<and> sameDeps (deps s) [] then trace s
      else trace s @ (if mounted s then map Unsubscribe (handles (cleanup s)) else []) @
           [Subscribe (nextHandle s) prop])"
  by (cases "cleanup s")
     (auto simp: hook_defs Let_def prim_defs split: prod.splits if_splits)

lemma unmount_trace: "trace (unmount s) = trace s @ map Unsubscribe (handles (cleanup s))"
  by (cases "cleanup s") (simp_all add: unmount_def unsubscribe_def)

lemma unmount_world: "world (unmount s) = world s"
  by (cases "cleanup s") (simp_all add: unmount_def unsubscribe_def)

lemma unmounted_cleanup: "inv s \<Longrightarrow> \<not> mounted s \<Longrightarrow> handles (cleanup s) = []"
  by (simp add: inv_def)

lemma inv_run_createStateHook: "inv (run (createStateHook cfg) es (newFactory cfg fs w))"
  using okState_run [where cfg = cfg and es = es and fs = fs and w = w] by (simp add: okState_def)

lemma inv_run_createKeyedStateHook: "inv (run (createKeyedStateHook cfg) es (newFactory cfg fs w))"
  using okKeyed_run [where cfg = cfg and es = es and fs = fs and w = w] by (simp add: okKeyed_def)

lemma inv_run_createStateHook_prop: "inv (run (createStateHook_prop prop) es (newInstance fs iv w))"
  by (rule run_preserves)
     (simp_all add: inv_new inv_createStateHook_prop inv_notify inv_unmount)

lemma inv_run_createWrappedStateHook:
  "inv (run (createWrappedStateHook invoke prop) es (newInstance fs iv w))"
  by (rule run_preserves)
     (simp_all add: inv_new inv_createWrappedStateHook inv_notify inv_unmount)
section \<open>One activation: the action first, then the subscription\<close>

text \<open>
  Claim C6. A render activates the hook when the instance is not mounted yet or the
  dependency array has changed. For a plain hook with an options object, the activation
  releases the previous handle if there is one, then calls the action with the argument
  array if \<open>invokeAction\<close> holds, then subscribes to the property. For a keyed hook called
  with a key \<open>k\<close> it does the same and subscribes to exactly the property, a dot and the
  key. A wrapped hook calls its invoker, then subscribes. In each case the call of the
  action is the last one before the subscription.
\<close>

theorem action_precedes_subscription:
  assumes "s = run (createStateHook cfg) es (newFactory cfg fs w)"
    and "t = run (createKeyedStateHook cfg') es' (newFactory cfg' fs' w')"
    and "u = run (createWrappedStateHook invoke wprop) es'' (newInstance fs'' Undefined w'')"
  shows
    "(\<not> mounted s \<or> \<not> sameDeps (deps s) (DFlag (invokeActionOf oa) # map DArg (actionArrOf oa)) \<longrightarrow>
        trace (snd (render (createStateHook cfg) oa s)) =
          trace s @ map Unsubscribe (handles (cleanup s)) @
          (if invokeActionOf oa then [ActionCall (actionArrOf oa)] else []) @
          [Subscribe (nextHandle s) (property cfg)] \<and>
        world (snd (render (createStateHook cfg) oa s)) =
          (if invokeActionOf oa then actionFn cfg (actionArrOf oa) (world s) else world s)) \<and>
     (keyOf ob = Val k \<and>
      (\<not> mounted t \<or>
       \<not> sameDeps (deps t) (DKey (Val k) # DFlag (invokeActionOf ob) # map DArg (actionArrOf ob))) \<longrightarrow>
        trace (snd (render (createKeyedStateHook cfg') ob t)) =
          trace t @ map Unsubscribe (handles (cleanup t)) @
          (if invokeActionOf ob then [ActionCall (actionArrOf ob)] else []) @
          [Subscribe (nextHandle t) (property cfg' @ ''.'' @ keyText k)] \<and>
        world (snd (render (createKeyedStateHook cfg') ob t)) =
          (if invokeActionOf ob then actionFn cfg' (actionArrOf ob) (world t) else world t)) \<and>
     (\<not> mounted u \<or> \<not> sameDeps (deps u) [DKey param] \<longrightarrow>
        trace (snd (render (createWrappedStateHook invoke wprop) param u)) =
          trace u @ map Unsubscribe (handles (cleanup u)) @
          [InvokeCall param, Subscribe (nextHandle u) wprop])"
proof (intro conjI impI)
  have i: "inv s" unfolding assms(1) by (rule inv_run_createStateHook)
  assume a: "\<not> mounted s \<or> \<not> sameDeps (deps s) (DFlag (invokeActionOf oa) # map DArg (actionArrOf oa))"
  show "trace (snd (render (createStateHook cfg) oa s)) =
          trace s @ map Unsubscribe (handles (cleanup s)) @
          (if invokeActionOf oa then [ActionCall (actionArrOf oa)] else []) @
          [Subscribe (nextHandle s) (property cfg)]"
    using a unmounted_cleanup [OF i] by (auto simp: render_createStateHook_trace)
  show "world (snd (render (createStateHook cfg) oa s)) =
          (if invokeActionOf oa then actionFn cfg (actionArrOf oa) (world s) else world s)"
    using a by (auto simp: render_createStateHook_world)
next
  have i: "inv t" unfolding assms(2) by (rule inv_run_createKeyedStateHook)
  assume a: "keyOf ob = Val k \<and>
      (\<not> mounted t \<or>
       \<not> sameDeps (deps t) (DKey (Val k) # DFlag (invokeActionOf ob) # map DArg (actionArrOf ob)))"
  show "trace (snd (render (createKeyedStateHook cfg') ob t)) =
          trace t @ map Unsubscribe (handles (cleanup t)) @
          (if invokeActionOf ob then [ActionCall (actionArrOf ob)] else []) @
          [Subscribe (nextHandle t) (property cfg' @ ''.'' @ keyText k)]"
    using a unmounted_cleanup [OF i] by (auto simp: render_createKeyedStateHook_trace)
  show "world (snd (render (createKeyedStateHook cfg') ob t)) =
          (if invokeActionOf ob then actionFn cfg' (actionArrOf ob) (world t) else world t)"
    using a by (auto simp: render_createKeyedStateHook_world)
next
  have i: "inv u" unfolding assms(3) by (rule inv_run_createWrappedStateHook)
  assume a: "\<not> mounted u \<or> \<not> sameDeps (deps u) [DKey param]"
  show "trace (snd (render (createWrappedStateHook invoke wprop) param u)) =
          trace u @ map Unsubscribe (handles (cleanup u)) @
          [InvokeCall param, Subscribe (nextHandle u) wprop]"
    using a unmounted_cleanup [OF i] by (auto simp: render_createWrappedStateHook_trace)
qed

lemmas eval_more = eval_defs withArgs_def countCalls_def

text \<open>
  The claim at work. A first render of the cart hook with the argument \<open>x\<close> calls the
  action with it and then subscribes to \<open>cart\<close>. The product hook was rendered without a
  key; the render with the key \<open>sku-1\<close> calls the action once, with no arguments, and then
  subscribes to \<open>product.sku-1\<close>. A first render of a wrapped hook with the parameter 7
  calls the invoker with it and then subscribes.
\<close>

theorem action_precedes_subscription_witness:
  "\<not> mounted (run (createStateHook cartCfg) [] (newFactory cartCfg demoFuns 0)) \<and>
   trace (snd (render (createStateHook cartCfg) (withArgs [''x''])
            (run (createStateHook cartCfg) [] (newFactory cartCfg demoFuns 0))))
     = [ActionCall [''x''], Subscribe 0 ''cart''] \<and>
   world (snd (render (createStateHook cartCfg) (withArgs [''x''])
            (run (createStateHook cartCfg) [] (newFactory cartCfg demoFuns 0)))) = 1 \<and>
   keyOf (withKey (Val (KStr ''sku-1''))) = Val (KStr ''sku-1'') \<and>
   \<not> sameDeps
       (deps (run (createKeyedStateHook productCfg) [Render (withKey Undefined)]
          (newFactory productCfg demoFuns 0)))
       (DKey (Val (KStr ''sku-1'')) # DFlag (invokeActionOf (withKey (Val (KStr ''sku-1'')))) #
        map DArg (actionArrOf (withKey (Val (KStr ''sku-1''))))) \<and>
   trace (snd (render (createKeyedStateHook productCfg) (withKey (Val (KStr ''sku-1'')))
            (run (createKeyedStateHook productCfg) [Render (withKey Undefined)]
               (newFactory productCfg demoFuns 0))))
     = [ActionCall [], Subscribe 0 ''product.sku-1''] \<and>
   world (snd (render (createKeyedStateHook productCfg) (withKey (Val (KStr ''sku-1'')))
            (run (createKeyedStateHook productCfg) [Render (withKey Undefined)]
               (newFactory productCfg demoFuns 0)))) = 1 \<and>
   \<not> mounted (run (createWrappedStateHook countCalls ''cart'') []
                (newInstance demoFuns Undefined 0 :: (nat list, string, nat) sys)) \<and>
   trace (snd (render (createWrappedStateHook countCalls ''cart'') (Val (KNum 7))
            (run (createWrappedStateHook countCalls ''cart'') []
               (newInstance demoFuns Undefined 0 :: (nat list, string, nat) sys))))
     = [InvokeCall (Val (KNum 7)), Subscribe 0 ''cart'']"
proof -
  let ?s = "run (createStateHook cartCfg) [] (newFactory cartCfg demoFuns 0)"
  let ?t = "run (createKeyedStateHook productCfg) [Render (withKey Undefined)]
              (newFactory productCfg demoFuns 0)"
  let ?u = "run (createWrappedStateHook countCalls ''cart'') []
              (newInstance demoFuns Undefined 0 :: (nat list, string, nat) sys)"
  let ?ob = "withKey (Val (KStr ''sku-1''))"
  have h1: "\<not> mounted ?s" by (simp add: eval_more)
  have h2: "keyOf ?ob = Val (KStr ''sku-1'')" by (simp add: eval_more)
  have h3: "\<not> sameDeps (deps ?t) (DKey (Val (KStr ''sku-1'')) # DFlag (invokeActionOf ?ob) #
              map DArg (actionArrOf ?ob))"
    by (simp add: eval_more)
  have h4: "\<not> mounted ?u" by (simp add: eval_more)
  note T = action_precedes_subscription [OF refl refl refl, where cfg = cartCfg and es = "[]"
      and w = 0 and oa = "withArgs [''x'']" and cfg' = productCfg
      and es' = "[Render (withKey Undefined)]" and w' = 0 and ob = "?ob"
      and k = "KStr ''sku-1''" and invoke = countCalls and wprop = "''cart''" and es'' = "[]"
      and w'' = 0 and param = "Val (KNum 7)"]
  note r1 = T [THEN conjunct1, THEN mp, OF disjI1 [OF h1]]
  note r2 = T [THEN conjunct2, THEN conjunct1, THEN mp, OF conjI [OF h2 disjI2 [OF h3]]]
  note r3 = T [THEN conjunct2, THEN conjunct2, THEN mp, OF disjI1 [OF h4]]
  have c1: "trace (snd (render (createStateHook cartCfg) (withArgs [''x'']) ?s))
      = [ActionCall [''x''], Subscribe 0 ''cart'']"
    unfolding r1 [THEN conjunct1] by (simp add: eval_more)
  have c2: "world (snd (render (createStateHook cartCfg) (withArgs [''x'']) ?s)) = 1"
    unfolding r1 [THEN conjunct2] by (simp add: eval_more)
  have c3: "trace (snd (render (createKeyedStateHook productCfg) ?ob ?t))
      = [ActionCall [], Subscribe 0 ''product.sku-1'']"
    unfolding r2 [THEN conjunct1] by (simp add: eval_more)
  have c4: "world (snd (render (createKeyedStateHook productCfg) ?ob ?t)) = 1"
    unfolding r2 [THEN conjunct2] by (simp add: eval_more)
  have c5: "trace (snd (render (createWrappedStateHook countCalls ''cart'') (Val (KNum 7)) ?u))
      = [InvokeCall (Val (KNum 7)), Subscribe 0 ''cart'']"
    unfolding r3 by (simp add: eval_more)
  show ?thesis
    by (simp only: h1 h2 h3 h4 c1 c2 c3 c4 c5 simp_thms)
qed
section \<open>Calls of the action\<close>

lemma actionCalls_unsubscribes: "actionCalls (map Unsubscribe hs) = []"
  by (induction hs) auto

lemma subscribed_unsubscribes: "subscribed (map Unsubscribe hs) = []"
  by (induction hs) auto

lemma released_unsubscribes: "released (map Unsubscribe hs) = hs"
  by (induction hs) auto

lemma subscribedPaths_after_createStateHook:
  "subscribedPaths (snd (render (createStateHook cfg) options
      (run (createStateHook cfg) es (newFactory cfg fs w)))) = [property cfg]"
proof -
  let ?s' = "run (createStateHook cfg) (es @ [Render options]) (newFactory cfg fs w)"
  have "okState cfg ?s'" by (rule okState_run)
  moreover have "mounted ?s'" by (simp add: run_snoc render_def split: prod.splits)
  ultimately show ?thesis by (simp add: okState_def atProperty_def run_snoc)
qed

lemma quiet_run_createStateHook:
  fixes cfg :: "('a, 'b, 'w) stateHookOptions"
  assumes "\<forall>i. Render i \<in> set es \<longrightarrow> \<not> invokeActionOf i"
  shows "actionCalls (trace (run (createStateHook cfg) es (newFactory cfg fs w))) = [] \<and>
         world (run (createStateHook cfg) es (newFactory cfg fs w)) = w"
proof -
  let ?P = "\<lambda>s :: ('a, 'b, 'w) sys. actionCalls (trace s) = [] \<and> world s = w"
  show "?P (run (createStateHook cfg) es (newFactory cfg fs w))"
  proof (rule run_preserves_when)
    show "?P (newFactory cfg fs w)" by (simp add: newFactory_def newInstance_def)
  next
    fix e and s :: "('a, 'b, 'w) sys"
    assume e: "e \<in> set es" and P: "?P s"
    show "?P (step (createStateHook cfg) e s)"
    proof (cases e)
      case (Render i)
      with e assms have "\<not> invokeActionOf i" by blast
      with Render P show ?thesis
        by (simp add: render_createStateHook_trace render_createStateHook_world
            actionCalls_append actionCalls_unsubscribes)
    next
      case (Notify p v)
      with P show ?thesis by (simp add: notify_fields)
    next
      case Unmount
      with P show ?thesis
        by (simp add: unmount_trace unmount_world actionCalls_append actionCalls_unsubscribes)
    qed
  qed
qed

text \<open>
  Claim C7. If every call of a plain hook with an options object passes
  \<open>invokeAction = false\<close>, the action is never called and the world is as it was,
  however many renders, notifications and unmounts there are. An activation with
  \<open>invokeAction = false\<close> still releases the previous handle, if any, and subscribes to the
  property, which is then the live subscription.
\<close>

theorem no_action_without_invokeAction:
  assumes "s = run (createStateHook cfg) es (newFactory cfg fs w)"
  shows
    "((\<forall>i. Render i \<in> set es \<longrightarrow> \<not> invokeActionOf i) \<longrightarrow>
        actionCalls (trace s) = [] \<and> world s = w) \<and>
     (\<not> invokeActionOf oa \<and>
      (\<not> mounted s \<or> \<not> sameDeps (deps s) (DFlag False # map DArg (actionArrOf oa))) \<longrightarrow>
        trace (snd (render (createStateHook cfg) oa s)) =
          trace s @ map Unsubscribe (handles (cleanup s)) @
          [Subscribe (nextHandle s) (property cfg)] \<and>
        subscribedPaths (snd (render (createStateHook cfg) oa s)) = [property cfg])"
proof (intro conjI impI)
  assume "\<forall>i. Render i \<in> set es \<longrightarrow> \<not> invokeActionOf i"
  then show "actionCalls (trace s) = []" "world s = w"
    unfolding assms by (simp_all add: quiet_run_createStateHook)
next
  have i: "inv s" unfolding assms by (rule inv_run_createStateHook)
  assume a: "\<not> invokeActionOf oa \<and>
      (\<not> mounted s \<or> \<not> sameDeps (deps s) (DFlag False # map DArg (actionArrOf oa)))"
  show "trace (snd (render (createStateHook cfg) oa s)) =
          trace s @ map Unsubscribe (handles (cleanup s)) @
          [Subscribe (nextHandle s) (property cfg)]"
    using a unmounted_cleanup [OF i] by (auto simp: render_createStateHook_trace)
  show "subscribedPaths (snd (render (createStateHook cfg) oa s)) = [property cfg]"
    unfolding assms by (rule subscribedPaths_after_createStateHook)
qed

lemmas eval_all = eval_more noInvoke_def

text \<open>
  The claim at work: the cart hook is rendered twice with \<open>invokeAction = false\<close>, with
  different arguments, and notified in between. The action was not called and the world
  still counts 0 calls; a third such render with new arguments releases handle 1 and
  subscribes to \<open>cart\<close> again.
\<close>

theorem no_action_without_invokeAction_witness:
  "\<not> invokeActionOf (noInvoke [''c'']) \<and> \<not> invokeActionOf (noInvoke [''a'']) \<and>
   \<not> invokeActionOf (noInvoke [''b'']) \<and>
   actionCalls (trace (run (createStateHook cartCfg)
      [Render (noInvoke [''c'']), Notify ''cart'' (Val [1]), Render (noInvoke [''a''])]
      (newFactory cartCfg demoFuns 0))) = [] \<and>
   world (run (createStateHook cartCfg)
      [Render (noInvoke [''c'']), Notify ''cart'' (Val [1]), Render (noInvoke [''a''])]
      (newFactory cartCfg demoFuns 0)) = 0 \<and>
   \<not> sameDeps
       (deps (run (createStateHook cartCfg)
          [Render (noInvoke [''c'']), Notify ''cart'' (Val [1]), Render (noInvoke [''a''])]
          (newFactory cartCfg demoFuns 0)))
       (DFlag False # map DArg (actionArrOf (noInvoke [''b'']))) \<and>
   trace (snd (render (createStateHook cartCfg) (noInvoke [''b''])
      (run (createStateHook cartCfg)
         [Render (noInvoke [''c'']), Notify ''cart'' (Val [1]), Render (noInvoke [''a''])]
         (newFactory cartCfg demoFuns 0))))
     = [Subscribe 0 ''cart'', Unsubscribe 0, Subscribe 1 ''cart'', Unsubscribe 1,
        Subscribe 2 ''cart''] \<and>
   subscribedPaths (snd (render (createStateHook cartCfg) (noInvoke [''b''])
      (run (createStateHook cartCfg)
         [Render (noInvoke [''c'']), Notify ''cart'' (Val [1]), Render (noInvoke [''a''])]
         (newFactory cartCfg demoFuns 0)))) = [''cart'']"
proof -
  let ?es = "[Render (noInvoke [''c'']), Notify ''cart'' (Val [1 :: nat]), Render (noInvoke [''a''])]"
  let ?s = "run (createStateHook cartCfg) ?es (newFactory cartCfg demoFuns 0)"
  have n: "\<not> invokeActionOf (noInvoke [''c''])" "\<not> invokeActionOf (noInvoke [''a''])"
    "\<not> invokeActionOf (noInvoke [''b''])"
    by (simp_all add: noInvoke_def invokeActionOf_def)
  have h1: "\<forall>i. Render i \<in> set ?es \<longrightarrow> \<not> invokeActionOf i"
    using n by auto
  have h2: "\<not> sameDeps (deps ?s) (DFlag False # map DArg (actionArrOf (noInvoke [''b''])))"
    by (simp add: eval_all)
  have p: "property cartCfg = ''cart''" by (simp add: cartCfg_def)
  note T = no_action_without_invokeAction [OF refl, where cfg = cartCfg and es = ?es
      and w = 0 and oa = "noInvoke [''b'']"]
  note r1 = T [THEN conjunct1, THEN mp, OF h1]
  note r2 = T [THEN conjunct2, THEN mp, OF conjI [OF n(3) disjI2 [OF h2]]]
  have c1: "trace (snd (render (createStateHook cartCfg) (noInvoke [''b'']) ?s))
     = [Subscribe 0 ''cart'', Unsubscribe 0, Subscribe 1 ''cart'', Unsubscribe 1,
        Subscribe 2 ''cart'']"
    unfolding r2 [THEN conjunct1] by (simp add: eval_all)
  have c2: "subscribedPaths (snd (render (createStateHook cartCfg) (noInvoke [''b'']) ?s))
     = [''cart'']"
    unfolding r2 [THEN conjunct2] by (simp only: p)
  show ?thesis
    by (simp only: n r1 h2 c1 c2 simp_thms)
qed
section \<open>A configuration without a callable action\<close>






section \<open>The keyed hook without a key\<close>

lemma idle_render_trace:
  "isNil (keyOf options) \<Longrightarrow>
   trace (snd (render (createKeyedStateHook cfg) options s)) =
     (if mounted s \<and> sameDeps (deps s) (DKey (keyOf options) # DFlag (invokeActionOf options) #
                                 map DArg (actionArrOf options))
      then trace s
      else trace s @ (if mounted s then map Unsubscribe (handles (cleanup s)) else []))"
  by (simp add: render_createKeyedStateHook_trace)

lemma idle_render_world:
  "isNil (keyOf options) \<Longrightarrow>
   world (snd (render (createKeyedStateHook cfg) options s)) = world s"
  by (simp add: render_createKeyedStateHook_world)

lemma idle_render_subs:
  assumes "okKeyed cfg s" and "isNil (keyOf options)"
  shows "subscribedPaths (snd (render (createKeyedStateHook cfg) options s)) = []"
proof -
  let ?s' = "snd (render (createKeyedStateHook cfg) options s)"
  have "atKey (property cfg) ?s'"
    using assms(1) by (simp add: okKeyed_def inv_atKey_createKeyedStateHook)
  moreover have "mounted ?s'" by (simp add: render_def split: prod.splits)
  moreover have "\<exists>r. deps ?s' = DKey (keyOf options) # r"
    using assms(1)
    by (cases "cleanup s")
       (auto simp: okKeyed_def atKey_def hook_defs Let_def prim_defs
          split: prod.splits if_splits)
  ultimately show ?thesis using assms(2) by (auto simp: atKey_def)
qed

lemma idle_step:
  assumes "slotOk iv s" and "mounted s \<longrightarrow> state s = Null" and "trace s = []"
    and "subs s = []" and "cleanup s = CNoop" and "isNil (keyOf options)"
  shows "slotOk iv (snd (render (createKeyedStateHook cfg) options s)) \<and>
         state (snd (render (createKeyedStateHook cfg) options s)) = Null \<and>
         trace (snd (render (createKeyedStateHook cfg) options s)) = [] \<and>
         subs (snd (render (createKeyedStateHook cfg) options s)) = [] \<and>
         cleanup (snd (render (createKeyedStateHook cfg) options s)) = CNoop"
  using assms
  by (auto simp: slotOk_def hook_defs Let_def prim_defs isUndefined_iff
        split: prod.splits if_splits)

lemma idle_run:
  fixes cfg :: "('a, 'b, 'w) stateHookOptions"
  assumes "\<forall>i. Render i \<in> set es \<longrightarrow> isNil (keyOf i)"
  shows "trace (run (createKeyedStateHook cfg) es (newFactory cfg fs w)) = [] \<and>
         world (run (createKeyedStateHook cfg) es (newFactory cfg fs w)) = w \<and>
         fst (createKeyedStateHook cfg options
               (run (createKeyedStateHook cfg) es (newFactory cfg fs w)))
           = (if isNil (initialValue cfg) then Null else initialValue cfg)"
proof -
  let ?iv = "initialValue cfg"
  let ?P = "\<lambda>s :: ('a, 'b, 'w) sys.
      slotOk ?iv s \<and> (mounted s \<longrightarrow> state s = Null) \<and> trace s = [] \<and>
      subs s = [] \<and> cleanup s = CNoop \<and> world s = w"
  have P: "?P (run (createKeyedStateHook cfg) es (newFactory cfg fs w))"
  proof (rule run_preserves_when)
    show "?P (newFactory cfg fs w)"
      by (simp add: newFactory_def slotOk_new) (simp add: newInstance_def)
  next
    fix e and s :: "('a, 'b, 'w) sys"
    assume e: "e \<in> set es" and P: "?P s"
    show "?P (step (createKeyedStateHook cfg) e s)"
    proof (cases e)
      case (Render i)
      with e assms have k: "isNil (keyOf i)" by blast
      from P have "slotOk ?iv s" "mounted s \<longrightarrow> state s = Null" "trace s = []"
        "subs s = []" "cleanup s = CNoop" by simp_all
      from idle_step [OF this k, of cfg] idle_render_world [OF k, of cfg s] P Render
      show ?thesis by simp
    next
      case (Notify p v)
      with P show ?thesis by (simp add: notify_def slotOk_def)
    next
      case Unmount
      with P slotOk_unmount [of ?iv s] show ?thesis by (simp add: unmount_def)
    qed
  qed
  have "(if isUndefined ?iv then Null else ?iv) = (if isNil ?iv then Null else ?iv)"
    by (cases ?iv) simp_all
  with P quiet_read_createKeyedStateHook [of ?iv _ cfg options] show ?thesis by simp
qed

text \<open>
  Claim C5, as stated, fails for an idle state that follows an active one: the product
  hook, configured without a fallback, was keyed by \<open>sku-1\<close> and saw \<open>[1]\<close>; the render
  without a key removes the subscription, and a call without a key still returns \<open>[1]\<close>,
  which is neither the no-value marker nor a fallback.
\<close>

theorem idle_after_active_returns_last_value:
  "isNil (keyOf (withKey Undefined)) \<and>
   initialValue productCfg = Undefined \<and>
   subscribedPaths (run (createKeyedStateHook productCfg)
      [Render (withKey (Val (KStr ''sku-1''))), Notify ''product.sku-1'' (Val [1]),
       Render (withKey Undefined)] (newFactory productCfg demoFuns 0)) = [] \<and>
   fst (createKeyedStateHook productCfg (withKey Undefined)
      (run (createKeyedStateHook productCfg)
         [Render (withKey (Val (KStr ''sku-1''))), Notify ''product.sku-1'' (Val [1]),
          Render (withKey Undefined)] (newFactory productCfg demoFuns 0))) = Val [1]"
  by (simp add: eval_all)

text \<open>
  Claim C5, amended. While the key is absent, no call of the keyed hook calls subscribe or
  the action, whatever state the instance is in and however often the hook is called, and
  after the call no subscription is live. If the key has been absent in every call so
  far, nothing at all has been called, and the hook returns the fallback if there is a
  non-nil one and null otherwise. (What the hook returns without a key after a key was
  present is the last state, by the read contract.)
\<close>

theorem idle_keyed_hook_is_inert:
  assumes "t = run (createKeyedStateHook cfg) es (newFactory cfg fs w)"
  shows
    "(isNil (keyOf ob) \<longrightarrow>
        subscribed (trace (snd (render (createKeyedStateHook cfg) ob s)))
          = subscribed (trace s) \<and>
        actionCalls (trace (snd (render (createKeyedStateHook cfg) ob s)))
          = actionCalls (trace s) \<and>
        world (snd (render (createKeyedStateHook cfg) ob s)) = world s \<and>
        subscribedPaths (snd (render (createKeyedStateHook cfg) ob t)) = []) \<and>
     ((\<forall>i. Render i \<in> set es \<longrightarrow> isNil (keyOf i)) \<longrightarrow>
        trace t = [] \<and> world t = w \<and>
        fst (createKeyedStateHook cfg ob' t)
          = (if isNil (initialValue cfg) then Null else initialValue cfg))"
proof (intro conjI impI)
  assume k: "isNil (keyOf ob)"
  show "subscribed (trace (snd (render (createKeyedStateHook cfg) ob s)))
          = subscribed (trace s)"
    by (simp add: idle_render_trace [OF k] subscribed_append subscribed_unsubscribes)
  show "actionCalls (trace (snd (render (createKeyedStateHook cfg) ob s)))
          = actionCalls (trace s)"
    by (simp add: idle_render_trace [OF k] actionCalls_append actionCalls_unsubscribes)
  show "world (snd (render (createKeyedStateHook cfg) ob s)) = world s"
    by (rule idle_render_world [OF k])
  show "subscribedPaths (snd (render (createKeyedStateHook cfg) ob t)) = []"
    unfolding assms by (rule idle_render_subs [OF okKeyed_run k])
next
  assume "\<forall>i. Render i \<in> set es \<longrightarrow> isNil (keyOf i)"
  from idle_run [OF this, where cfg = cfg and fs = fs and w = w and options = ob']
  show "trace t = []" "world t = w"
    "fst (createKeyedStateHook cfg ob' t)
       = (if isNil (initialValue cfg) then Null else initialValue cfg)"
    unfolding assms by simp_all
qed

text \<open>
  The amended claim at work on the product hook. Called three times without a key, with
  a notification in between, it has called nothing, the world counts 0 calls of the
  action, and it returns null. Called without a key after it was keyed by \<open>sku-1\<close>, it
  adds no subscribe and no action call to the one of each made before.
\<close>

theorem idle_keyed_hook_is_inert_witness:
  "isNil (keyOf (withKey Undefined)) \<and> isNil (keyOf (withKey Null)) \<and>
   subscribed (trace (snd (render (createKeyedStateHook productCfg) (withKey Undefined)
      (run (createKeyedStateHook productCfg) [Render (withKey (Val (KStr ''sku-1'')))]
         (newFactory productCfg demoFuns 0))))) = [0] \<and>
   actionCalls (trace (snd (render (createKeyedStateHook productCfg) (withKey Undefined)
      (run (createKeyedStateHook productCfg) [Render (withKey (Val (KStr ''sku-1'')))]
         (newFactory productCfg demoFuns 0))))) = [[]] \<and>
   world (snd (render (createKeyedStateHook productCfg) (withKey Undefined)
      (run (createKeyedStateHook productCfg) [Render (withKey (Val (KStr ''sku-1'')))]
         (newFactory productCfg demoFuns 0)))) = 1 \<and>
   subscribedPaths (snd (render (createKeyedStateHook productCfg) (withKey Undefined)
      (run (createKeyedStateHook productCfg)
         [Render (withKey Undefined), Render (withKey Null),
          Notify ''product.sku-1'' (Val [1]), Render (withKey Undefined)]
         (newFactory productCfg demoFuns 0)))) = [] \<and>
   trace (run (createKeyedStateHook productCfg)
      [Render (withKey Undefined), Render (withKey Null),
       Notify ''product.sku-1'' (Val [1]), Render (withKey Undefined)]
      (newFactory productCfg demoFuns 0)) = [] \<and>
   world (run (createKeyedStateHook productCfg)
      [Render (withKey Undefined), Render (withKey Null),
       Notify ''product.sku-1'' (Val [1]), Render (withKey Undefined)]
      (newFactory productCfg demoFuns 0)) = 0 \<and>
   fst (createKeyedStateHook productCfg (withKey Undefined)
      (run (createKeyedStateHook productCfg)
         [Render (withKey Undefined), Render (withKey Null),
          Notify ''product.sku-1'' (Val [1]), Render (withKey Undefined)]
         (newFactory productCfg demoFuns 0))) = Null"
proof -
  let ?es = "[Render (withKey Undefined), Render (withKey Null),
              Notify ''product.sku-1'' (Val [1 :: nat]), Render (withKey Undefined)]"
  let ?s = "run (createKeyedStateHook productCfg) [Render (withKey (Val (KStr ''sku-1'')))]
              (newFactory productCfg demoFuns 0)"
  let ?ob = "withKey Undefined"
  have k: "isNil (keyOf ?ob)" "isNil (keyOf (withKey Null))"
    by (simp_all add: withKey_def keyOf_def)
  have h: "\<forall>i. Render i \<in> set ?es \<longrightarrow> isNil (keyOf i)"
    using k by auto
  have iv: "initialValue productCfg = Undefined" by (simp add: productCfg_def)
  note T = idle_keyed_hook_is_inert [OF refl, where cfg = productCfg and es = ?es and w = 0
      and ob = "?ob" and s = ?s and ob' = "?ob"]
  note r1 = T [THEN conjunct1, THEN mp, OF k(1)]
  note r2 = T [THEN conjunct2, THEN mp, OF h]
  have c1: "subscribed (trace (snd (render (createKeyedStateHook productCfg) ?ob ?s))) = [0]"
    unfolding r1 [THEN conjunct1] by (simp add: eval_all)
  have c2: "actionCalls (trace (snd (render (createKeyedStateHook productCfg) ?ob ?s))) = [[]]"
    unfolding r1 [THEN conjunct2, THEN conjunct1] by (simp add: eval_all)
  have c3: "world (snd (render (createKeyedStateHook productCfg) ?ob ?s)) = 1"
    unfolding r1 [THEN conjunct2, THEN conjunct2, THEN conjunct1] by (simp add: eval_all)
  note c4 = r1 [THEN conjunct2, THEN conjunct2, THEN conjunct2]
  note c5 = r2 [THEN conjunct1]
  note c6 = r2 [THEN conjunct2, THEN conjunct1]
  have c7: "fst (createKeyedStateHook productCfg ?ob
      (run (createKeyedStateHook productCfg) ?es (newFactory productCfg demoFuns 0))) = Null"
    unfolding r2 [THEN conjunct2, THEN conjunct2] by (simp add: iv)
  show ?thesis
    by (simp only: k c1 c2 c3 c4 c5 c6 c7 simp_thms)
qed
section \<open>Every subscription is released exactly once\<close>

lemma inv_disciplined: "inv s \<Longrightarrow> disciplined s"
  unfolding inv_def disciplined_def by blast

lemma unmount_released:
  assumes "inv s"
  shows "released (trace (unmount s)) = subscribed (trace (unmount s)) \<and> subs (unmount s) = []"
proof -
  have "inv (unmount s)" using assms by (rule inv_unmount)
  moreover have "cleanup (unmount s) = CNoop" by (simp add: unmount_def)
  ultimately show ?thesis by (simp add: inv_def)
qed

lemma render_createKeyedStateHook_deps:
  "deps (snd (render (createKeyedStateHook cfg) options s)) =
     DKey (keyOf options) # DFlag (invokeActionOf options) # map DArg (actionArrOf options)"
  by (cases "cleanup s")
     (auto simp: hook_defs Let_def prim_defs split: prod.splits if_splits)

lemma render_mounted: "mounted (snd (render hook i s))"
  by (simp add: render_def split: prod.splits)

lemma okKeyed_render:
  "okKeyed cfg s \<Longrightarrow> okKeyed cfg (snd (render (createKeyedStateHook cfg) options s))"
  by (simp add: okKeyed_def inv_createKeyedStateHook vinv_createKeyedStateHook
      slotOk_createKeyedStateHook inv_atKey_createKeyedStateHook)

lemma keyed_live_subscription:
  assumes ok: "okKeyed cfg s" and k: "keyOf options = Val k"
  shows "\<exists>h. liveSubs (snd (render (createKeyedStateHook cfg) options s))
               = [(h, property cfg @ ''.'' @ keyText k)] \<and>
             handles (cleanup (snd (render (createKeyedStateHook cfg) options s))) = [h]"
proof -
  let ?s' = "snd (render (createKeyedStateHook cfg) options s)"
  have ok': "okKeyed cfg ?s'" using ok by (rule okKeyed_render)
  then have "atKey (property cfg) ?s'" and i: "inv ?s'" by (simp_all add: okKeyed_def)
  then have p: "subscribedPaths ?s' = [property cfg @ ''.'' @ keyText k]"
    using k by (simp add: atKey_def render_mounted render_createKeyedStateHook_deps)
  then obtain h cb where s: "subs ?s' = [(h, property cfg @ ''.'' @ keyText k, cb)]"
    by (cases "subs ?s'") (auto simp: subscribedPaths_def)
  with i have "handles (cleanup ?s') = [h]" by (simp add: inv_def)
  with s show ?thesis by (simp add: liveSubs_def)
qed

lemma key_change_trace:
  assumes ok: "okKeyed cfg s" and k1: "keyOf oa = Val k1" and k2: "keyOf ob = Val k2"
    and ne: "k1 \<noteq> k2"
  shows "\<exists>h. liveSubs (snd (render (createKeyedStateHook cfg) oa s))
               = [(h, property cfg @ ''.'' @ keyText k1)] \<and>
             trace (snd (render (createKeyedStateHook cfg) ob
                      (snd (render (createKeyedStateHook cfg) oa s)))) =
               trace (snd (render (createKeyedStateHook cfg) oa s)) @ [Unsubscribe h] @
               (if invokeActionOf ob then [ActionCall (actionArrOf ob)] else []) @
               [Subscribe (nextHandle (snd (render (createKeyedStateHook cfg) oa s)))
                  (property cfg @ ''.'' @ keyText k2)]"
proof -
  let ?s' = "snd (render (createKeyedStateHook cfg) oa s)"
  from keyed_live_subscription [OF ok k1] obtain h
    where l: "liveSubs ?s' = [(h, property cfg @ ''.'' @ keyText k1)]"
      and h: "handles (cleanup ?s') = [h]" by blast
  have "trace (snd (render (createKeyedStateHook cfg) ob ?s')) =
          trace ?s' @ [Unsubscribe h] @
          (if invokeActionOf ob then [ActionCall (actionArrOf ob)] else []) @
          [Subscribe (nextHandle ?s') (property cfg @ ''.'' @ keyText k2)]"
    using k1 k2 ne h
    by (simp add: render_createKeyedStateHook_trace [of cfg ob ?s'] render_mounted
        render_createKeyedStateHook_deps)
  with l show ?thesis by blast
qed

text \<open>
  Claim C4. For each of the four hook variants and every sequence of renders,
  notifications and unmounts of a component instance, the calls made to the store are
  disciplined: replayed against one slot, each subscribe finds the slot empty and each
  unsubscribe releases the handle that is in it, so at most one handle is live at any
  time and a handle is released before the next is acquired; no handle is handed out
  twice; the handles released are the handles subscribed, in the same order, without the
  one that is live; and the store holds exactly the live one. After an unmount the
  handles released are all the handles subscribed, and the store holds none: every
  subscribe was answered by exactly one unsubscribe. When the key of a keyed hook changes
  from \<open>k1\<close> to \<open>k2\<close>, the handle subscribed to the path of \<open>k1\<close> is released first,
  then the action is called if \<open>invokeAction\<close> holds, then the path of \<open>k2\<close> is subscribed.
\<close>

theorem one_release_per_subscription:
  assumes "a = run (createStateHook cfg) ea (newFactory cfg fs w)"
    and "b = run (createKeyedStateHook cfg) eb (newFactory cfg fs w)"
    and "c = run (createStateHook_prop pr) ec (newInstance fs iv w)"
    and "d = run (createWrappedStateHook invoke pr) ed (newInstance fs Undefined w)"
    and "b' = snd (render (createKeyedStateHook cfg) oa b)"
  shows
    "disciplined a \<and> disciplined b \<and> disciplined c \<and> disciplined d \<and>
     released (trace (unmount a)) = subscribed (trace (unmount a)) \<and> subs (unmount a) = [] \<and>
     released (trace (unmount b)) = subscribed (trace (unmount b)) \<and> subs (unmount b) = [] \<and>
     released (trace (unmount c)) = subscribed (trace (unmount c)) \<and> subs (unmount c) = [] \<and>
     released (trace (unmount d)) = subscribed (trace (unmount d)) \<and> subs (unmount d) = [] \<and>
     (keyOf oa = Val k1 \<and> keyOf ob = Val k2 \<and> k1 \<noteq> k2 \<longrightarrow>
        (\<exists>h. liveSubs b' = [(h, property cfg @ ''.'' @ keyText k1)] \<and>
           trace (snd (render (createKeyedStateHook cfg) ob b')) =
             trace b' @ [Unsubscribe h] @
             (if invokeActionOf ob then [ActionCall (actionArrOf ob)] else []) @
             [Subscribe (nextHandle b') (property cfg @ ''.'' @ keyText k2)]))"
proof -
  have ia: "inv a" unfolding assms(1) by (rule inv_run_createStateHook)
  have ib: "inv b" unfolding assms(2) by (rule inv_run_createKeyedStateHook)
  have ic: "inv c" unfolding assms(3) by (rule inv_run_createStateHook_prop)
  have id: "inv d" unfolding assms(4) by (rule inv_run_createWrappedStateHook)
  have ok: "okKeyed cfg b" unfolding assms(2) by (rule okKeyed_run)
  show ?thesis
  proof (intro conjI impI)
    assume "keyOf oa = Val k1 \<and> keyOf ob = Val k2 \<and> k1 \<noteq> k2"
    then show "\<exists>h. liveSubs b' = [(h, property cfg @ ''.'' @ keyText k1)] \<and>
           trace (snd (render (createKeyedStateHook cfg) ob b')) =
             trace b' @ [Unsubscribe h] @
             (if invokeActionOf ob then [ActionCall (actionArrOf ob)] else []) @
             [Subscribe (nextHandle b') (property cfg @ ''.'' @ keyText k2)]"
      unfolding assms(5) using key_change_trace [OF ok, of oa k1 ob k2] by blast
  qed (simp_all add: inv_disciplined ia ib ic id unmount_released)
qed

text \<open>
  The claim at work. The product hook (plain) is rendered, re-rendered with a new
  argument and unmounted: handles 0 and 1 were subscribed and exactly these were
  released. The keyed product hook goes from no key to \<open>sku-1\<close> to \<open>sku-2\<close>: handle 0,
  subscribed to \<open>product.sku-1\<close>, is released before the action is called and
  \<open>product.sku-2\<close> is subscribed under handle 1.
\<close>

theorem one_release_per_subscription_witness:
  "disciplined (run (createStateHook productCfg) [Render (withArgs [''y'']), Render (withArgs [''x''])]
      (newFactory productCfg demoFuns 0)) \<and>
   subscribed (trace (unmount (run (createStateHook productCfg)
      [Render (withArgs [''y'']), Render (withArgs [''x''])] (newFactory productCfg demoFuns 0)))) = [0, 1] \<and>
   released (trace (unmount (run (createStateHook productCfg)
      [Render (withArgs [''y'']), Render (withArgs [''x''])] (newFactory productCfg demoFuns 0)))) = [0, 1] \<and>
   subs (unmount (run (createStateHook productCfg)
      [Render (withArgs [''y'']), Render (withArgs [''x''])] (newFactory productCfg demoFuns 0))) = [] \<and>
   disciplined (run (createKeyedStateHook productCfg) [Render (withKey Undefined)]
      (newFactory productCfg demoFuns 0)) \<and>
   disciplined (run (createStateHook_prop ''cart'') [Render (), Unmount, Render ()]
      (newInstance demoFuns Undefined 0 :: (nat list, string, nat) sys)) \<and>
   disciplined (run (createWrappedStateHook countCalls ''cart'')
      [Render (Val (KNum 1)), Render (Val (KNum 2))]
      (newInstance demoFuns Undefined 0 :: (nat list, string, nat) sys)) \<and>
   keyOf (withKey (Val (KStr ''sku-1''))) = Val (KStr ''sku-1'') \<and>
   keyOf (withKey (Val (KStr ''sku-2''))) = Val (KStr ''sku-2'') \<and>
   KStr ''sku-1'' \<noteq> KStr ''sku-2'' \<and>
   liveSubs (snd (render (createKeyedStateHook productCfg) (withKey (Val (KStr ''sku-1'')))
      (run (createKeyedStateHook productCfg) [Render (withKey Undefined)]
         (newFactory productCfg demoFuns 0)))) = [(0, ''product.sku-1'')] \<and>
   trace (snd (render (createKeyedStateHook productCfg) (withKey (Val (KStr ''sku-2'')))
      (snd (render (createKeyedStateHook productCfg) (withKey (Val (KStr ''sku-1'')))
         (run (createKeyedStateHook productCfg) [Render (withKey Undefined)]
            (newFactory productCfg demoFuns 0))))))
     = [ActionCall [], Subscribe 0 ''product.sku-1'', Unsubscribe 0, ActionCall [],
        Subscribe 1 ''product.sku-2'']"
proof -
  let ?a = "run (createStateHook productCfg) [Render (withArgs [''y'']), Render (withArgs [''x''])]
              (newFactory productCfg demoFuns 0)"
  let ?b = "run (createKeyedStateHook productCfg) [Render (withKey Undefined)]
              (newFactory productCfg demoFuns 0)"
  let ?oa = "withKey (Val (KStr ''sku-1''))"
  let ?ob = "withKey (Val (KStr ''sku-2''))"
  let ?b' = "snd (render (createKeyedStateHook productCfg) ?oa ?b)"
  have k: "keyOf ?oa = Val (KStr ''sku-1'')" "keyOf ?ob = Val (KStr ''sku-2'')"
    "KStr ''sku-1'' \<noteq> KStr ''sku-2''"
    by (simp_all add: withKey_def keyOf_def)
  note T = one_release_per_subscription [OF refl refl refl refl refl,
      where cfg = productCfg and w = 0 and ea = "[Render (withArgs [''y'']), Render (withArgs [''x''])]"
      and eb = "[Render (withKey Undefined)]" and pr = "''cart''"
      and ec = "[Render (), Unmount, Render ()]" and iv = Undefined and invoke = countCalls
      and ed = "[Render (Val (KNum 1)), Render (Val (KNum 2))]" and oa = "?oa" and ob = "?ob"
      and ?k1.0 = "KStr ''sku-1''" and ?k2.0 = "KStr ''sku-2''"]
  note d = T [THEN conjunct1] T [THEN conjunct2, THEN conjunct1]
    T [THEN conjunct2, THEN conjunct2, THEN conjunct1]
    T [THEN conjunct2, THEN conjunct2, THEN conjunct2, THEN conjunct1]
  note u = T [THEN conjunct2, THEN conjunct2, THEN conjunct2, THEN conjunct2]
  have c1: "subscribed (trace (unmount ?a)) = [0, 1]" by (simp add: eval_all)
  have c2: "released (trace (unmount ?a)) = [0, 1]"
    unfolding u [THEN conjunct1] by (rule c1)
  note c3 = u [THEN conjunct2, THEN conjunct1]
  from u k obtain h where l: "liveSubs ?b' = [(h, property productCfg @ ''.'' @ keyText (KStr ''sku-1''))]"
    and t: "trace (snd (render (createKeyedStateHook productCfg) ?ob ?b')) =
             trace ?b' @ [Unsubscribe h] @
             (if invokeActionOf ?ob then [ActionCall (actionArrOf ?ob)] else []) @
             [Subscribe (nextHandle ?b') (property productCfg @ ''.'' @ keyText (KStr ''sku-2''))]"
    by blast
  have e: "liveSubs ?b' = [(0, ''product.sku-1'')]" by (simp add: eval_all liveSubs_def)
  with l have h: "h = 0" by simp
  have c4: "trace (snd (render (createKeyedStateHook productCfg) ?ob ?b'))
     = [ActionCall [], Subscribe 0 ''product.sku-1'', Unsubscribe 0, ActionCall [],
        Subscribe 1 ''product.sku-2'']"
    unfolding t h by (simp add: eval_all)
  show ?thesis
    by (simp only: d k c1 c2 c3 e c4 simp_thms)
qed

end
